theory Spec2Isabelle
  imports Complex_Main "HOL-Library.Sublist"
begin

section \<open>Python values used by the store assistant\<close>

text \<open>
  Python integers are unbounded, so they are \<^typ>\<open>int\<close>. A Python \<open>str\<close> is a
  \<^typ>\<open>string\<close>; characters outside ASCII are written as their UTF-8 bytes. A value
  that may be \<open>None\<close> is an \<open>option\<close>. The only exception the modelled code can
  raise itself is the \<open>ValueError\<close> of \<open>int(...)\<close> on a stored configuration value.
\<close>

datatype error = ValueError

type_synonym cell = "int \<times> int"

subsection \<open>Decimal text\<close>

definition digit_char :: "nat \<Rightarrow> char" where
  "digit_char d = ''0123456789'' ! d"

text \<open>\<open>str(n)\<close> for a non-negative integer.\<close>

function str_nat :: "nat \<Rightarrow> string" where
  "str_nat n = (if n < 10 then [digit_char n] else str_nat (n div 10) @ [digit_char (n mod 10)])"
  by pat_completeness auto
termination
  by (relation "measure id") auto

declare str_nat.simps [simp del]

definition is_space :: "char \<Rightarrow> bool" where
  "is_space c \<longleftrightarrow>
     c \<in> set [CHR '' '', CHR 0x09, CHR 0x0A, CHR 0x0B, CHR 0x0C, CHR 0x0D,
                CHR 0x1C, CHR 0x1D, CHR 0x1E, CHR 0x1F]"

text \<open>\<open>s.strip()\<close>: whitespace removed at both ends.\<close>

definition strip :: "string \<Rightarrow> string" where
  "strip s = rev (dropWhile is_space (rev (dropWhile is_space s)))"

definition is_digit :: "char \<Rightarrow> bool" where
  "is_digit c \<longleftrightarrow> (48::nat) \<le> of_char c \<and> of_char c \<le> (57::nat)"

definition digits_val :: "string \<Rightarrow> nat" where
  "digits_val s = foldl (\<lambda>acc c. 10 * acc + (of_char c - 48)) 0 s"

text \<open>
  \<open>int(s)\<close> on a string: surrounding whitespace is ignored, one sign is allowed, and the
  rest must be decimal digits, where single underscores may stand between digits.
  Anything else raises \<open>ValueError\<close>.
\<close>

fun digit_groups :: "string \<Rightarrow> bool \<Rightarrow> bool" where
  "digit_groups [] after_digit = after_digit"
| "digit_groups (c # cs) after_digit =
     (if is_digit c then digit_groups cs True
      else if c = CHR ''_'' \<and> after_digit \<and> cs \<noteq> [] \<and> is_digit (hd cs) then digit_groups cs False
      else False)"

definition py_int_unsigned :: "string \<Rightarrow> error + int" where
  "py_int_unsigned s =
     (if digit_groups s False then Inr (int (digits_val (filter is_digit s))) else Inl ValueError)"

definition py_int :: "string \<Rightarrow> error + int" where
  "py_int s =
     (case strip s of
        [] \<Rightarrow> Inl ValueError
      | c # cs \<Rightarrow>
          if c = CHR ''-'' then (case py_int_unsigned cs of Inl e \<Rightarrow> Inl e | Inr v \<Rightarrow> Inr (- v))
          else if c = CHR ''+'' then py_int_unsigned cs
          else py_int_unsigned (c # cs))"

section \<open>The catalog store\<close>

text \<open>
  The rows the database layer returns. An aisle row has a name, a section and integer grid
  coordinates. A product row is joined with its aisle by a left join, so the aisle name
  and section of a product are \<open>None\<close> when the product has no aisle. The configuration
  table maps text keys to text values.
\<close>

record aisle =
  a_name :: string
  a_section :: string
  grid_x :: int
  grid_y :: int

record product =
  p_name :: string
  p_brand :: string
  p_category :: string
  p_keywords :: string
  p_aisle_name :: "string option"
  p_section :: "string option"

type_synonym config = "string \<rightharpoonup> string"

text \<open>\<open>int(get_config(key) or dflt)\<close>: a missing or empty value gives the default.\<close>

definition config_int :: "config \<Rightarrow> string \<Rightarrow> int \<Rightarrow> error + int" where
  "config_int cfg key dflt =
     (case cfg key of
        None \<Rightarrow> Inr dflt
      | Some v \<Rightarrow> if v = [] then Inr dflt else py_int v)"

section \<open>Grid navigation (backend/pathfinding.py)\<close>

subsection \<open>\<open>build_store_grid\<close>\<close>

definition in_bounds :: "int \<Rightarrow> int \<Rightarrow> cell \<Rightarrow> bool" where
  "in_bounds rows cols c \<longleftrightarrow> 0 \<le> fst c \<and> fst c < rows \<and> 0 \<le> snd c \<and> snd c < cols"

text \<open>One round of the loop over the aisles: the grid and the lookup after this aisle.\<close>

definition place_aisle ::
  "int \<Rightarrow> int \<Rightarrow> int list list \<times> (string \<rightharpoonup> cell) \<Rightarrow> aisle \<Rightarrow> int list list \<times> (string \<rightharpoonup> cell)" where
  "place_aisle rows cols st a =
     (let x = grid_x a; y = grid_y a; grid = fst st; aisle_positions = snd st in
      if 0 \<le> x \<and> x < rows \<and> 0 \<le> y \<and> y < cols
      then (grid[nat x := (grid ! nat x)[nat y := 1]], aisle_positions(a_name a \<mapsto> (x, y)))
      else (grid, aisle_positions))"

definition empty_grid :: "int \<Rightarrow> int \<Rightarrow> int list list" where
  "empty_grid rows cols = replicate (nat rows) (replicate (nat cols) 0)"

definition build_grid :: "int \<Rightarrow> int \<Rightarrow> aisle list \<Rightarrow> int list list \<times> (string \<rightharpoonup> cell)" where
  "build_grid rows cols aisles = foldl (place_aisle rows cols) (empty_grid rows cols, Map.empty) aisles"

definition build_store_grid ::
  "config \<Rightarrow> aisle list \<Rightarrow> error + (int list list \<times> int \<times> int \<times> (string \<rightharpoonup> cell))" where
  "build_store_grid cfg aisles =
     (case config_int cfg ''grid_rows'' 6 of
        Inl e \<Rightarrow> Inl e
      | Inr rows \<Rightarrow>
          (case config_int cfg ''grid_cols'' 5 of
             Inl e \<Rightarrow> Inl e
           | Inr cols \<Rightarrow>
               (let (grid, aisle_positions) = build_grid rows cols aisles
                in Inr (grid, rows, cols, aisle_positions))))"

subsection \<open>\<open>bfs_path\<close>\<close>

definition directions4 :: "(int \<times> int) list" where
  "directions4 = [(0, 1), (0, -1), (1, 0), (-1, 0)]"

text \<open>
  The \<open>for dx, dy in directions\<close> loop for one dequeued entry \<open>((x, y), path)\<close>. It
  either returns the path to \<open>end\<close> (\<open>Inl\<close>) or finishes with the new visited set and
  queue (\<open>Inr\<close>).
\<close>

fun bfs_expand ::
  "int \<Rightarrow> int \<Rightarrow> cell \<Rightarrow> cell \<Rightarrow> cell list \<Rightarrow> (int \<times> int) list \<Rightarrow> cell set \<Rightarrow> (cell \<times> cell list) list
   \<Rightarrow> cell list + (cell set \<times> (cell \<times> cell list) list)" where
  "bfs_expand rows cols end xy path [] visited queue = Inr (visited, queue)"
| "bfs_expand rows cols end xy path (d # ds) visited queue =
     (let nx = fst xy + fst d; ny = snd xy + snd d in
      if 0 \<le> nx \<and> nx < rows \<and> 0 \<le> ny \<and> ny < cols \<and> (nx, ny) \<notin> visited
      then (let visited' = insert (nx, ny) visited; new_path = path @ [(nx, ny)] in
            if (nx, ny) = end then Inl new_path
            else bfs_expand rows cols end xy path ds visited' (queue @ [((nx, ny), new_path)]))
      else bfs_expand rows cols end xy path ds visited queue)"

definition grid_cells :: "int \<Rightarrow> int \<Rightarrow> cell set" where
  "grid_cells rows cols = {0..<rows} \<times> {0..<cols}"

definition bfs_measure :: "int \<Rightarrow> int \<Rightarrow> cell set \<Rightarrow> (cell \<times> cell list) list \<Rightarrow> nat" where
  "bfs_measure rows cols visited queue = 2 * card (grid_cells rows cols - visited) + length queue"

lemma finite_grid_cells: "finite (grid_cells rows cols)"
  by (simp add: grid_cells_def)

lemma bfs_expand_measure:
  "bfs_expand rows cols e xy path ds visited queue = Inr (v', q')
   \<Longrightarrow> bfs_measure rows cols v' q' \<le> bfs_measure rows cols visited queue"
proof (induction ds arbitrary: visited queue)
  case Nil
  then show ?case by simp
next
  case (Cons d ds)
  let ?n = "(fst xy + fst d, snd xy + snd d)"
  show ?case
  proof (cases "0 \<le> fst ?n \<and> fst ?n < rows \<and> 0 \<le> snd ?n \<and> snd ?n < cols \<and> ?n \<notin> visited")
    case True
    then have ne: "?n \<noteq> e" using Cons.prems by (auto simp: Let_def split: if_splits)
    with True Cons.prems
    have "bfs_expand rows cols e xy path ds (insert ?n visited) (queue @ [(?n, path @ [?n])]) = Inr (v', q')"
      by (simp add: Let_def)
    from Cons.IH[OF this]
    have le: "bfs_measure rows cols v' q'
              \<le> bfs_measure rows cols (insert ?n visited) (queue @ [(?n, path @ [?n])])" .
    have mem: "?n \<in> grid_cells rows cols - visited"
      using True by (simp add: grid_cells_def)
    have "grid_cells rows cols - insert ?n visited = (grid_cells rows cols - visited) - {?n}"
      by auto
    then have "card (grid_cells rows cols - insert ?n visited) = card (grid_cells rows cols - visited) - 1"
      using mem by (simp add: finite_grid_cells)
    moreover have "card (grid_cells rows cols - visited) \<ge> 1"
      using mem finite_grid_cells[of rows cols]
      by (metis One_nat_def Suc_leI card_gt_0_iff empty_iff finite_Diff)
    ultimately show ?thesis using le by (simp add: bfs_measure_def)
  next
    case False
    with Cons.prems
    have "bfs_expand rows cols e xy path ds visited queue = Inr (v', q')"
      by (auto simp: Let_def)
    from Cons.IH[OF this] show ?thesis .
  qed
qed

text \<open>
  The \<open>while queue\<close> loop. \<open>None\<close> is the source's \<open>return None\<close> when the queue runs
  empty.
\<close>

function bfs_loop ::
  "int \<Rightarrow> int \<Rightarrow> cell \<Rightarrow> cell set \<Rightarrow> (cell \<times> cell list) list \<Rightarrow> cell list option" where
  "bfs_loop rows cols end visited [] = None"
| "bfs_loop rows cols end visited ((xy, path) # queue) =
     (case bfs_expand rows cols end xy path directions4 visited queue of
        Inl found \<Rightarrow> Some found
      | Inr (visited', queue') \<Rightarrow> bfs_loop rows cols end visited' queue')"
  by pat_completeness auto
termination
proof (relation "measure (\<lambda>(rows, cols, e, visited, queue). bfs_measure rows cols visited queue)")
  show "wf (measure (\<lambda>(rows, cols, e, visited, queue). bfs_measure rows cols visited queue))"
    by simp
next
  fix rows cols :: int and e xy :: cell and visited :: "cell set" and path queue x2 x y
  assume "bfs_expand rows cols e xy path directions4 visited queue = Inr x2" and "(x, y) = x2"
  then have "bfs_expand rows cols e xy path directions4 visited queue = Inr (x, y)" by simp
  from bfs_expand_measure[OF this]
  show "((rows, cols, e, x, y), (rows, cols, e, visited, (xy, path) # queue))
        \<in> measure (\<lambda>(rows, cols, e, visited, queue). bfs_measure rows cols visited queue)"
    by (simp add: bfs_measure_def)
qed

text \<open>\<open>bfs_path(grid, start, end, rows, cols)\<close>; the grid argument is never read.\<close>

definition bfs_path :: "int list list \<Rightarrow> cell \<Rightarrow> cell \<Rightarrow> int \<Rightarrow> int \<Rightarrow> cell list option" where
  "bfs_path grid start end rows cols =
     (if start = end then Some [start]
      else bfs_loop rows cols end {start} [(start, [start])])"

subsection \<open>\<open>path_to_directions\<close>\<close>

text \<open>\<open>direction_names.get((dx, dy), "forward")\<close>.\<close>

definition direction_name :: "int \<times> int \<Rightarrow> string" where
  "direction_name d =
     (if d = (0, 1) then ''right''
      else if d = (0, -1) then ''left''
      else if d = (1, 0) then ''forward''
      else if d = (-1, 0) then ''back''
      else ''forward'')"

text \<open>The differences \<open>path[i + 1] - path[i]\<close>, for \<open>i\<close> from \<open>0\<close> to \<open>len(path) - 2\<close>.\<close>

fun path_deltas :: "cell list \<Rightarrow> (int \<times> int) list" where
  "path_deltas (a # b # rest) = (fst b - fst a, snd b - snd a) # path_deltas (b # rest)"
| "path_deltas _ = []"

definition step_phrase :: "int \<times> int \<Rightarrow> nat \<Rightarrow> string" where
  "step_phrase d steps =
     (if steps = 1 then ''Go '' @ direction_name d
      else ''Go '' @ direction_name d @ '' for '' @ str_nat steps @ '' sections'')"

text \<open>
  The outer \<open>while i < len(path) - 1\<close> loop, on the list of differences from index
  \<open>i\<close> on: the inner loop counts the differences equal to the first one, one phrase is
  appended, and \<open>i\<close> advances by that count.
\<close>

function encode_runs :: "(int \<times> int) list \<Rightarrow> string list" where
  "encode_runs [] = []"
| "encode_runs (d # ds) =
     step_phrase d (1 + length (takeWhile (\<lambda>d'. d' = d) ds))
       # encode_runs (dropWhile (\<lambda>d'. d' = d) ds)"
  by pat_completeness auto
termination
  by (relation "measure length") (auto simp: length_dropWhile_le less_Suc_eq_le)

text \<open>The separator of the source, as its UTF-8 bytes between two spaces.\<close>

definition arrow_sep :: string where
  "arrow_sep = [CHR '' '', CHR 0xC3, CHR 0xA2, CHR 0xE2, CHR 0x80, CHR 0xA0,
                CHR 0xE2, CHR 0x80, CHR 0x99, CHR '' '']"

fun join :: "string \<Rightarrow> string list \<Rightarrow> string" where
  "join sep [] = []"
| "join sep [s] = s"
| "join sep (s # t # rest) = s @ sep @ join sep (t # rest)"

definition already_there :: string where
  "already_there = ''You'' @ [CHR 0x27] @ ''re already there!''"

definition path_to_directions :: "cell list \<Rightarrow> string" where
  "path_to_directions path =
     (if path = [] \<or> length path < 2 then already_there
      else join arrow_sep (encode_runs (path_deltas path)))"

subsection \<open>\<open>get_directions_to_product\<close>\<close>

record direction_result =
  r_found :: bool
  r_directions :: string
  r_path :: "cell list"
  r_target :: "cell option"
  r_entrance :: cell
  r_steps :: "int option"

text \<open>How an f-string prints a value that is a string or \<open>None\<close>.\<close>

definition fmt_opt :: "string option \<Rightarrow> string" where
  "fmt_opt v = (case v of None \<Rightarrow> ''None'' | Some s \<Rightarrow> s)"

definition lookup_aisle :: "(string \<rightharpoonup> cell) \<Rightarrow> string option \<Rightarrow> cell option" where
  "lookup_aisle aisle_positions aisle_name =
     (case aisle_name of None \<Rightarrow> None | Some n \<Rightarrow> aisle_positions n)"

definition get_directions_to_product :: "config \<Rightarrow> aisle list \<Rightarrow> product \<Rightarrow> error + direction_result" where
  "get_directions_to_product cfg aisles product =
     (case build_store_grid cfg aisles of
        Inl e \<Rightarrow> Inl e
      | Inr (grid, rows, cols, aisle_positions) \<Rightarrow>
     (case config_int cfg ''entrance_x'' 0 of
        Inl e \<Rightarrow> Inl e
      | Inr entrance_x \<Rightarrow>
     (case config_int cfg ''entrance_y'' 0 of
        Inl e \<Rightarrow> Inl e
      | Inr entrance_y \<Rightarrow>
     (let start = (entrance_x, entrance_y); aisle_name = p_aisle_name product in
      case lookup_aisle aisle_positions aisle_name of
        None \<Rightarrow>
          Inr \<lparr>r_found = False,
               r_directions = ''Sorry, I couldn'' @ [CHR 0x27] @ ''t find the location for aisle ''
                              @ fmt_opt aisle_name @ ''.'',
               r_path = [], r_target = None, r_entrance = start, r_steps = None\<rparr>
      | Some target \<Rightarrow>
          (case bfs_path grid start target rows cols of
             None \<Rightarrow>
               Inr \<lparr>r_found = False,
                    r_directions = ''Sorry, I couldn'' @ [CHR 0x27] @ ''t find a path to aisle ''
                                   @ fmt_opt aisle_name @ ''.'',
                    r_path = [], r_target = Some target, r_entrance = start, r_steps = None\<rparr>
           | Some path \<Rightarrow>
               Inr \<lparr>r_found = True,
                    r_directions = ''Head to **Aisle '' @ fmt_opt aisle_name @ ''** (''
                                   @ fmt_opt (p_section product) @ ''): '' @ path_to_directions path,
                    r_path = path, r_target = Some target, r_entrance = start,
                    r_steps = Some (int (length path) - 1)\<rparr>)))))"

section \<open>Product search (backend/search.py)\<close>

subsection \<open>String operations of Python\<close>

text \<open>
  \<open>s.lower()\<close> on the ASCII letters; every other character is kept. \<open>t in s\<close>,
  \<open>s.startswith(t)\<close> and \<open>s.endswith(t)\<close> on strings are the contiguous-substring,
  prefix and suffix relations.
\<close>

definition lower_char :: "char \<Rightarrow> char" where
  "lower_char c =
     (case map_of (zip ''ABCDEFGHIJKLMNOPQRSTUVWXYZ'' ''abcdefghijklmnopqrstuvwxyz'') c of
        None \<Rightarrow> c
      | Some l \<Rightarrow> l)"

definition lower :: "string \<Rightarrow> string" where
  "lower s = map lower_char s"

definition str_in :: "string \<Rightarrow> string \<Rightarrow> bool" where
  "str_in t s \<longleftrightarrow> sublist t s"

definition startswith :: "string \<Rightarrow> string \<Rightarrow> bool" where
  "startswith s t \<longleftrightarrow> prefix t s"

definition endswith :: "string \<Rightarrow> string \<Rightarrow> bool" where
  "endswith s t \<longleftrightarrow> suffix t s"

text \<open>\<open>s.split()\<close>: the maximal runs of characters that are not whitespace.\<close>

function split_ws :: "string \<Rightarrow> string list" where
  "split_ws s =
     (case dropWhile is_space s of
        [] \<Rightarrow> []
      | c # cs \<Rightarrow> (c # takeWhile (\<lambda>x. \<not> is_space x) cs) # split_ws (dropWhile (\<lambda>x. \<not> is_space x) cs))"
  by pat_completeness auto
termination
proof (relation "measure length")
  show "wf (measure length)" by simp
next
  fix s :: string and c cs
  assume "dropWhile is_space s = c # cs"
  then have "length (c # cs) \<le> length s"
    by (metis length_dropWhile_le)
  moreover have "length (dropWhile (\<lambda>x. \<not> is_space x) cs) \<le> length cs"
    by (rule length_dropWhile_le)
  ultimately show "(dropWhile (\<lambda>x. \<not> is_space x) cs, s) \<in> measure length"
    by simp
qed

declare split_ws.simps [simp del]

subsection \<open>\<open>correct_query\<close>\<close>

text \<open>
  The spell checker is a library outside the repository. What \<open>correct_query\<close> asks of
  it is taken as a parameter: whether the product-aware dictionary and the English-only
  dictionary report a word as unknown, and the correction proposed for a word
  (\<open>None\<close> when there is none).
\<close>

record speller =
  spell_unknown :: "string \<Rightarrow> bool"
  english_unknown :: "string \<Rightarrow> bool"
  correction :: "string \<Rightarrow> string option"

definition correct_word :: "speller \<Rightarrow> string \<Rightarrow> string" where
  "correct_word sp word =
     (if spell_unknown sp word \<and> english_unknown sp word
      then (case correction sp word of
              None \<Rightarrow> word
            | Some c \<Rightarrow> if c \<noteq> [] then c else word)
      else word)"

definition correct_query :: "speller \<Rightarrow> string \<Rightarrow> string" where
  "correct_query sp query = join '' '' (map (correct_word sp) (split_ws (lower query)))"

subsection \<open>\<open>expand_query\<close>\<close>

definition INTENT_MAP :: "(string \<times> string list) list" where
  "INTENT_MAP =
     [(''cold'', [''cold'', ''flu'', ''fever'', ''cough'', ''sardi'', ''khansi'', ''bukhar'', ''paracetamol'']),
      (''headache'', [''headache'', ''pain relief'', ''paracetamol'', ''fever'']),
      (''fever'', [''fever'', ''paracetamol'', ''bukhar'', ''cold'']),
      (''hungry'', [''snack'', ''biscuit'', ''chips'', ''namkeen'', ''chocolate'']),
      (''thirsty'', [''water'', ''juice'', ''cold drink'', ''soda'', ''paani'']),
      (''breakfast'', [''milk'', ''bread'', ''butter'', ''tea'', ''biscuit'', ''chai'']),
      (''cooking'', [''oil'', ''spice'', ''masala'', ''salt'', ''rice'', ''atta'']),
      (''cleaning'', [''soap'', ''hand wash'', ''sanitizer'', ''dettol'']),
      (''hair'', [''shampoo'', ''hair care'', ''hair wash'', ''conditioner'']),
      (''teeth'', [''toothpaste'', ''dental'', ''dant manjan'']),
      (''skin'', [''face wash'', ''cream'', ''soap'', ''skin care'']),
      (''baby'', [''diaper'', ''baby food'', ''milk'', ''powder'']),
      (''sweet'', [''chocolate'', ''biscuit'', ''ice cream'', ''candy'', ''mithai'', ''sugar'']),
      (''spicy'', [''chili'', ''masala'', ''mirch'', ''garam masala'']),
      (''drink'', [''cold drink'', ''juice'', ''soda'', ''water'', ''coke'', ''pepsi'']),
      (''fruit'', [''banana'', ''apple'', ''mango'', ''fruit'', ''kela'', ''seb'']),
      (''vegetable'', [''tomato'', ''onion'', ''peas'', ''sabji'', ''tamatar'', ''pyaaz''])]"

text \<open>
  The loop over the intent map extends the list of terms; \<open>list(set(...))\<close> then drops
  the repeated terms. The order in which Python lists the elements of a set is not fixed
  by the source; \<open>remdups\<close> is one such order, and the callers only take a maximum over
  the terms.
\<close>

definition expanded_terms_of :: "string \<Rightarrow> string list" where
  "expanded_terms_of query_lower =
     query_lower # concat (map snd (filter (\<lambda>(intent, kws). str_in intent query_lower) INTENT_MAP))"

definition expand_query :: "string \<Rightarrow> string list" where
  "expand_query query = remdups (expanded_terms_of (lower query))"

subsection \<open>\<open>search_products_fuzzy\<close>\<close>

text \<open>
  The similarity measures come from the fuzzy-matching library, outside the repository;
  they are parameters. Scores are numbers between 0 and 100; they are modelled as exact
  rationals, so the weighted sum below is the exact one.
\<close>

record scorers =
  WRatio :: "string \<Rightarrow> string \<Rightarrow> rat"
  partial_ratio :: "string \<Rightarrow> string \<Rightarrow> rat"
  token_set_ratio :: "string \<Rightarrow> string \<Rightarrow> rat"

definition scores_in_range :: "scorers \<Rightarrow> bool" where
  "scores_in_range sc \<longleftrightarrow>
     (\<forall>a b. 0 \<le> WRatio sc a b \<and> WRatio sc a b \<le> 100
          \<and> 0 \<le> partial_ratio sc a b \<and> partial_ratio sc a b \<le> 100
          \<and> 0 \<le> token_set_ratio sc a b \<and> token_set_ratio sc a b \<le> 100)"

definition weighted_score :: "scorers \<Rightarrow> string \<Rightarrow> product \<Rightarrow> rat" where
  "weighted_score sc term product =
     (let name = lower (p_name product);
          brand = lower (p_brand product);
          category = lower (p_category product);
          keywords = lower (p_keywords product);
          name_score = max (WRatio sc term name) (partial_ratio sc term name);
          brand_score = WRatio sc term brand;
          category_score = WRatio sc term category;
          keyword_score = token_set_ratio sc term keywords
      in name_score * (50 / 100) + keyword_score * (25 / 100)
         + category_score * (15 / 100) + brand_score * (10 / 100))"

text \<open>The score of one term for one product, after the \<open>if / elif / elif\<close> overrides.\<close>

definition term_score :: "scorers \<Rightarrow> string \<Rightarrow> product \<Rightarrow> rat" where
  "term_score sc term product =
     (let name = lower (p_name product);
          keywords = lower (p_keywords product);
          weighted = weighted_score sc term product
      in if str_in term name then max weighted 95
         else if startswith name term \<or> endswith name term then max weighted 92
         else if str_in term keywords then max weighted 75
         else weighted)"

definition best_score :: "scorers \<Rightarrow> string list \<Rightarrow> product \<Rightarrow> rat" where
  "best_score sc expanded_terms product =
     foldl (\<lambda>best term. max best (term_score sc term product)) 0 expanded_terms"

text \<open>
  \<open>round(x, 1)\<close>: the nearest multiple of one tenth, a tie going to the even multiple.
\<close>

definition round_half_even :: "rat \<Rightarrow> int" where
  "round_half_even x =
     (let f = \<lfloor>x\<rfloor>; d = x - of_int f
      in if d < 1 / 2 then f else if 1 / 2 < d then f + 1 else if even f then f else f + 1)"

definition py_round1 :: "rat \<Rightarrow> rat" where
  "py_round1 x = of_int (round_half_even (x * 10)) / 10"

text \<open>A product with its \<open>match_score\<close> entry.\<close>

type_synonym scored = "product \<times> rat"

definition match_score :: "scored \<Rightarrow> rat" where
  "match_score r = snd r"

text \<open>\<open>xs[:n]\<close>: a negative \<open>n\<close> counts from the end of the list.\<close>

definition slice_to :: "int \<Rightarrow> 'a list \<Rightarrow> 'a list" where
  "slice_to n xs = (if 0 \<le> n then take (nat n) xs else take (length xs - nat (- n)) xs)"

text \<open>
  \<open>list.sort(key=..., reverse=True)\<close> is stable: entries with equal scores keep their
  order. \<open>sort_key\<close> on the negated score is the same stable descending sort.
\<close>

definition sort_by_score_desc :: "scored list \<Rightarrow> scored list" where
  "sort_by_score_desc rs = sort_key (\<lambda>r. - match_score r) rs"

definition score_products :: "scorers \<Rightarrow> string list \<Rightarrow> rat \<Rightarrow> product list \<Rightarrow> scored list" where
  "score_products sc expanded_terms score_threshold products =
     concat (map (\<lambda>product.
                    let best = best_score sc expanded_terms product
                    in if score_threshold \<le> best then [(product, py_round1 best)] else [])
                 products)"

definition search_products_fuzzy ::
  "speller \<Rightarrow> scorers \<Rightarrow> string \<Rightarrow> product list \<Rightarrow> int \<Rightarrow> rat \<Rightarrow> scored list" where
  "search_products_fuzzy sp sc query products top_n score_threshold =
     (let corrected_query = correct_query sp query;
          expanded_terms = expand_query corrected_query;
          scored_products = score_products sc expanded_terms score_threshold products
      in slice_to top_n (sort_by_score_desc scored_products))"

subsection \<open>\<open>search_with_llm\<close> and \<open>search_products\<close>\<close>

text \<open>
  The remote matcher is outside the repository. A configured client is a function from
  the query and the product listing to the list of integers decoded from its reply, or
  \<open>None\<close> when the call fails or the reply holds no list that decodes. No client at all
  is \<open>None\<close>.
\<close>

type_synonym llm_client = "string \<Rightarrow> product list \<Rightarrow> int list option"

text \<open>The loop over the indices: the accepted products so far, each with its rank score.\<close>

definition llm_collect :: "product list \<Rightarrow> int list \<Rightarrow> scored list" where
  "llm_collect products indices =
     foldl (\<lambda>results idx.
              if 1 \<le> idx \<and> idx \<le> int (length products)
              then results @ [(products ! nat (idx - 1), py_round1 (100 - of_nat (length results) * 5))]
              else results)
           [] indices"

definition search_with_llm :: "llm_client option \<Rightarrow> string \<Rightarrow> product list \<Rightarrow> int \<Rightarrow> scored list option" where
  "search_with_llm client query products top_n =
     (case client of
        None \<Rightarrow> None
      | Some ask \<Rightarrow>
          if products = [] then None
          else (case ask query products of
                  None \<Rightarrow> None
                | Some indices \<Rightarrow>
                    (let results = llm_collect products indices
                     in if results \<noteq> [] then Some (slice_to top_n results) else None)))"

definition search_products ::
  "llm_client option \<Rightarrow> speller \<Rightarrow> scorers \<Rightarrow> product list \<Rightarrow> string \<Rightarrow> int \<Rightarrow> rat \<Rightarrow> scored list" where
  "search_products client sp sc products query top_n score_threshold =
     (if products = [] then []
      else (case search_with_llm client query products top_n of
              Some llm_results \<Rightarrow>
                if llm_results \<noteq> [] then llm_results
                else search_products_fuzzy sp sc query products top_n score_threshold
            | None \<Rightarrow> search_products_fuzzy sp sc query products top_n score_threshold))"

section \<open>The reply pipeline (backend/ai_pipeline.py)\<close>

subsection \<open>More string operations of Python\<close>

text \<open>\<open>s.split(c)\<close> for a one-character separator; the empty string gives one empty piece.\<close>

fun split_on :: "char \<Rightarrow> string \<Rightarrow> string list" where
  "split_on c [] = [[]]"
| "split_on c (x # xs) =
     (if x = c then [] # split_on c xs
      else (case split_on c xs of
              [] \<Rightarrow> [[x]]
            | l # ls \<Rightarrow> (x # l) # ls))"

text \<open>
  \<open>s.replace(old, new)\<close> for a non-empty \<open>old\<close>: the occurrences of \<open>old\<close> are
  replaced from left to right, without overlap.
\<close>

function str_replace :: "string \<Rightarrow> string \<Rightarrow> string \<Rightarrow> string" where
  "str_replace old new s =
     (if s = [] then []
      else if old \<noteq> [] \<and> prefix old s then new @ str_replace old new (drop (length old) s)
      else hd s # str_replace old new (tl s))"
  by pat_completeness auto
termination
  by (relation "measure (\<lambda>(old, new, s). length s)") auto

declare str_replace.simps [simp del]

subsection \<open>The context given to the reply generator (backend/search.py)\<close>

text \<open>
  \<open>format_product_for_llm\<close> prints one search result over several lines, among them a
  price held as a floating-point number. The text it gives for a result is a parameter
  \<open>fmt\<close> of the functions below.
\<close>

definition format_search_results_for_llm :: "(scored \<Rightarrow> string) \<Rightarrow> scored list \<Rightarrow> string" where
  "format_search_results_for_llm fmt products =
     (if products = [] then ''No matching products found in the store inventory.''
      else join [CHR 0x0A]
             ((''Here are the matching products from the store inventory:'' @ [CHR 0x0A])
              # concat (map (\<lambda>product. [fmt product, []]) products)))"

subsection \<open>\<open>build_context_prompt\<close>\<close>

definition build_context_prompt ::
  "(scored \<Rightarrow> string) \<Rightarrow> string \<Rightarrow> scored list \<Rightarrow> direction_result option \<Rightarrow> string" where
  "build_context_prompt fmt user_query search_results directions_info =
     (let context_parts =
            (if search_results \<noteq> [] then [format_search_results_for_llm fmt search_results] else []);
          context_parts =
            (case directions_info of
               None \<Rightarrow> context_parts
             | Some d \<Rightarrow>
                 if r_found d then context_parts @ [[CHR 0x0A] @ ''Directions: '' @ r_directions d]
                 else context_parts)
      in if context_parts \<noteq> [] then join [CHR 0x0A] context_parts
         else ''No matching products found in the store inventory.'')"

subsection \<open>\<open>generate_fallback_response\<close>\<close>

record message =
  m_role :: string
  m_content :: string

definition no_match :: "string list" where
  "no_match =
     [''I couldn'' @ [CHR 0x27] @ ''t find that in our store. Try a different search term or category (e.g., ''
        @ [CHR 0x27] @ ''snacks'' @ [CHR 0x27] @ '', '' @ [CHR 0x27] @ ''dairy'' @ [CHR 0x27] @ '', ''
        @ [CHR 0x27] @ ''personal care'' @ [CHR 0x27] @ '').'',
      ''No exact match. Try broader terms like the product category or brand name.'',
      ''Sorry, that doesn'' @ [CHR 0x27] @ ''t seem to be in stock. Can you describe it differently?'']"

definition generic :: "string list" where
  "generic =
     [''Hi! Type what you'' @ [CHR 0x27] @ ''re looking for '' @ [CHR 0xE2, CHR 0x80, CHR 0x94]
        @ '' like '' @ [CHR 0x27] @ ''milk'' @ [CHR 0x27] @ '', '' @ [CHR 0x27] @ ''shampoo'' @ [CHR 0x27]
        @ '', or '' @ [CHR 0x27] @ ''something for a cold'' @ [CHR 0x27] @ '' ''
        @ [CHR 0xE2, CHR 0x80, CHR 0x94] @ '' and I'' @ [CHR 0x27] @ ''ll find it.'',
      ''I'' @ [CHR 0x27] @ ''m here to help you find products. What do you need today?'',
      ''Welcome! Just tell me what you'' @ [CHR 0x27] @ ''re looking for.'']"

text \<open>
  \<open>random.choice(seq)\<close>: the random draw is the argument \<open>r\<close>; any element of the
  sequence can be the one chosen.
\<close>

definition random_choice :: "nat \<Rightarrow> 'a list \<Rightarrow> 'a" where
  "random_choice r seq = seq ! (r mod length seq)"

definition product_lines_of :: "string list \<Rightarrow> string list" where
  "product_lines_of lines = map strip (filter (\<lambda>l. startswith (strip l) ''- **'') lines)"

text \<open>The reply built under \<open>if product_lines:\<close>, from the lines of the last message.\<close>

definition found_response :: "string list \<Rightarrow> string" where
  "found_response lines =
     (let location_lines = map strip (filter (\<lambda>l. str_in ''Location:'' l) lines);
          location_info =
            (if location_lines \<noteq> [] then strip (str_replace ''Location:'' [] (hd location_lines))
             else []);
          direction_line =
            (case filter (\<lambda>line. startswith (strip line) ''Directions:'') lines of
               [] \<Rightarrow> []
             | line # rest \<Rightarrow> strip (str_replace ''Directions:'' [] (strip line)));
          response =
            (if location_info \<noteq> []
             then [CHR 0xF0, CHR 0x9F, CHR 0x93, CHR 0x8D] @ '' Found at **'' @ location_info @ ''**.''
             else ''Here'' @ [CHR 0x27] @ ''s what I found.'')
      in if direction_line \<noteq> []
         then response @ [CHR 0x0A, CHR 0x0A] @ [CHR 0xF0, CHR 0x9F, CHR 0x9A, CHR 0xB6] @ '' ''
              @ direction_line
         else response)"

text \<open>
  The first test returns only when the last message holds the marker text and a product
  line; otherwise control falls through to the two tests below it.
\<close>

definition generate_fallback_response :: "nat \<Rightarrow> message list \<Rightarrow> string" where
  "generate_fallback_response r messages =
     (let last_msg = (if messages \<noteq> [] then m_content (last messages) else []);
          lines = split_on (CHR 0x0A) last_msg
      in if str_in ''matching products from the store inventory'' last_msg
            \<and> product_lines_of lines \<noteq> []
         then found_response lines
         else if str_in ''No matching products found'' last_msg then random_choice r no_match
         else random_choice r generic)"

definition generate_llm_response :: "nat \<Rightarrow> message list \<Rightarrow> string" where
  "generate_llm_response r messages = generate_fallback_response r messages"

subsection \<open>\<open>chat\<close>\<close>

definition SYSTEM_PROMPT :: "string \<Rightarrow> string" where
  "SYSTEM_PROMPT store_name =
     join [CHR 0x0A]
       [''You are a friendly and helpful supermarket shopping assistant. You help customers find products in the store.'',
        [],
        ''RULES:'',
        ''1. You ONLY answer questions about products and their locations in THIS store.'',
        ''2. When product information is provided in the context, use it to give specific aisle and shelf locations.'',
        ''3. If no matching products are found, politely say you couldn'' @ [CHR 0x27]
          @ ''t find that product and suggest alternatives.'',
        ''4. Keep responses short, conversational, and helpful (2-3 sentences max).'',
        ''5. If the customer asks a follow-up, remember the conversation context.'',
        ''6. Always mention the aisle name and shelf number when giving directions.'',
        ''7. Be warm and use phrases like '' @ [CHR 0x22] @ ''Sure!'' @ [CHR 0x22] @ '', '' @ [CHR 0x22]
          @ ''Great choice!'' @ [CHR 0x22] @ '', '' @ [CHR 0x22] @ ''Let me help you find that!''
          @ [CHR 0x22],
        ''8. If asked about things unrelated to the store, politely redirect to shopping assistance.'',
        [],
        ''STORE NAME: '' @ store_name,
        []]"

definition augmented_query :: "string \<Rightarrow> string \<Rightarrow> string" where
  "augmented_query user_query context =
     ''Customer'' @ [CHR 0x27] @ ''s question: '' @ [CHR 0x22] @ user_query @ [CHR 0x22]
     @ [CHR 0x0A, CHR 0x0A] @ ''Store inventory search results:'' @ [CHR 0x0A] @ context
     @ [CHR 0x0A, CHR 0x0A] @ ''Please respond to the customer'' @ [CHR 0x27]
     @ ''s question using the information above. Be conversational and helpful.''"

record chat_result =
  c_response :: string
  c_products :: "scored list"
  c_directions :: "direction_result option"
  c_query :: string

text \<open>
  The catalog, the aisles and the configuration are the rows of the store at the time of
  the call. The search keeps at most three results, with the default threshold of 50.
  The directions are asked for the first result only, and may raise on a stored
  configuration value that is not an integer.
\<close>

definition chat ::
  "llm_client option \<Rightarrow> speller \<Rightarrow> scorers \<Rightarrow> (scored \<Rightarrow> string) \<Rightarrow> nat \<Rightarrow> config \<Rightarrow> aisle list
   \<Rightarrow> product list \<Rightarrow> string \<Rightarrow> message list \<Rightarrow> error + chat_result" where
  "chat client sp sc fmt r cfg aisles products user_query conversation_history =
     (let search_results = search_products client sp sc products user_query 3 50 in
      case (if search_results \<noteq> []
            then (case get_directions_to_product cfg aisles (fst (hd search_results)) of
                    Inl e \<Rightarrow> Inl e
                  | Inr d \<Rightarrow> Inr (Some d))
            else Inr None) of
        Inl e \<Rightarrow> Inl e
      | Inr directions_info \<Rightarrow>
          (let context = build_context_prompt fmt user_query search_results directions_info;
               store_name = (case cfg ''store_name'' of
                               None \<Rightarrow> ''My Supermarket''
                             | Some v \<Rightarrow> if v \<noteq> [] then v else ''My Supermarket'');
               system_msg = SYSTEM_PROMPT store_name;
               messages = \<lparr>m_role = ''system'', m_content = system_msg\<rparr>
                          # drop (length conversation_history - 6) conversation_history
                          @ [\<lparr>m_role = ''user'', m_content = augmented_query user_query context\<rparr>];
               response_text = generate_llm_response r messages
           in Inr \<lparr>c_response = response_text, c_products = search_results,
                   c_directions = directions_info, c_query = user_query\<rparr>))"

section \<open>The search endpoint (backend/api.py)\<close>

text \<open>
  The request arguments are a map from names to text. The reply is either the error body
  with its status code or the body holding the results and the query (status 200). The
  argument \<open>n\<close> is converted to an integer before the query is looked at, so a value of
  \<open>n\<close> that is not an integer raises whatever the query is.
\<close>

datatype search_response =
  Error_response string int
| Results_response "scored list" string

definition search_endpoint ::
  "llm_client option \<Rightarrow> speller \<Rightarrow> scorers \<Rightarrow> product list \<Rightarrow> (string \<rightharpoonup> string)
   \<Rightarrow> error + search_response" where
  "search_endpoint client sp sc products args =
     (let query = strip (case args ''q'' of None \<Rightarrow> [] | Some v \<Rightarrow> v) in
      case (case args ''n'' of None \<Rightarrow> Inr 5 | Some v \<Rightarrow> py_int v) of
        Inl e \<Rightarrow> Inl e
      | Inr top_n \<Rightarrow>
          if query = [] then Inr (Error_response ''No query provided'' 400)
          else Inr (Results_response (search_products client sp sc products query top_n 50) query))"

section \<open>Paths on the grid\<close>

text \<open>
  The notions the statement about \<open>bfs_path\<close> is made of: the Manhattan distance of two
  cells, two cells that differ by one unit in exactly one coordinate, and a path of the
  grid from one cell to another.
\<close>

definition manhattan :: "cell \<Rightarrow> cell \<Rightarrow> int" where
  "manhattan a b = \<bar>fst a - fst b\<bar> + \<bar>snd a - snd b\<bar>"

definition adjacent :: "cell \<Rightarrow> cell \<Rightarrow> bool" where
  "adjacent a b \<longleftrightarrow>
     (fst a = fst b \<and> \<bar>snd a - snd b\<bar> = 1) \<or> (snd a = snd b \<and> \<bar>fst a - fst b\<bar> = 1)"

definition grid_path :: "int \<Rightarrow> int \<Rightarrow> cell \<Rightarrow> cell \<Rightarrow> cell list \<Rightarrow> bool" where
  "grid_path rows cols a b p \<longleftrightarrow>
     p \<noteq> [] \<and> hd p = a \<and> last p = b \<and> successively adjacent p
     \<and> list_all (in_bounds rows cols) p"

text \<open>
  The state of the \<open>while\<close> loop at the start of a round, for a search from \<open>start\<close>:
  every entry of the queue holds a path of shortest length to its cell, the queue is
  ordered by distance from \<open>start\<close> and spans at most two distances, every visited cell
  that has left the queue has all its neighbours visited, and every cell not farther
  than the head of the queue is visited.
\<close>

definition bfs_inv ::
  "int \<Rightarrow> int \<Rightarrow> cell \<Rightarrow> cell \<Rightarrow> cell set \<Rightarrow> (cell \<times> cell list) list \<Rightarrow> bool" where
  "bfs_inv rows cols start e visited queue \<longleftrightarrow>
     start \<in> visited \<and> e \<notin> visited
     \<and> (\<forall>cp \<in> set queue. grid_path rows cols start (fst cp) (snd cp)
                           \<and> int (length (snd cp)) = manhattan start (fst cp) + 1)
     \<and> sorted (map (\<lambda>cp. manhattan start (fst cp)) queue)
     \<and> (\<forall>cp \<in> set queue. manhattan start (fst cp) \<le> manhattan start (fst (hd queue)) + 1)
     \<and> (\<forall>c \<in> visited. c \<notin> fst ` set queue
            \<longrightarrow> (\<forall>n. adjacent c n \<and> in_bounds rows cols n \<longrightarrow> n \<in> visited))
     \<and> (queue \<noteq> []
            \<longrightarrow> (\<forall>c. in_bounds rows cols c \<and> manhattan start c \<le> manhattan start (fst (hd queue))
                     \<longrightarrow> c \<in> visited))"

section \<open>A small store used as test data\<close>

text \<open>
  A store with the default configuration (a 6 by 5 grid, entrance at the origin), one
  aisle inside the grid, one aisle whose coordinates lie outside it, and a few products.
\<close>

definition default_cfg :: config where
  "default_cfg = Map.empty"

definition aisle_A1 :: aisle where
  "aisle_A1 = \<lparr>a_name = ''A1'', a_section = ''Grocery'', grid_x = 0, grid_y = 2\<rparr>"

definition aisle_door :: aisle where
  "aisle_door = \<lparr>a_name = ''E0'', a_section = ''Entrance'', grid_x = 0, grid_y = 0\<rparr>"

definition aisle_far :: aisle where
  "aisle_far = \<lparr>a_name = ''Z9'', a_section = ''Annex'', grid_x = 9, grid_y = 9\<rparr>"

definition sugar :: product where
  "sugar = \<lparr>p_name = ''Sugar'', p_brand = '''', p_category = ''Grocery'', p_keywords = ''cheeni'',
            p_aisle_name = Some ''A1'', p_section = Some ''Grocery''\<rparr>"

definition trolley :: product where
  "trolley = \<lparr>p_name = ''Trolley'', p_brand = '''', p_category = ''Service'', p_keywords = '''',
              p_aisle_name = Some ''E0'', p_section = Some ''Entrance''\<rparr>"

definition garden_chair :: product where
  "garden_chair = \<lparr>p_name = ''Garden Chair'', p_brand = '''', p_category = ''Outdoor'',
                   p_keywords = '''', p_aisle_name = Some ''Z9'', p_section = Some ''Annex''\<rparr>"

definition missing_aisle_result :: direction_result where
  "missing_aisle_result =
     \<lparr>r_found = False,
      r_directions = ''Sorry, I couldn'' @ [CHR 0x27] @ ''t find the location for aisle A1.'',
      r_path = [], r_target = None, r_entrance = (0, 0), r_steps = None\<rparr>"

text \<open>
  A spell checker that knows every word, and similarity measures that give every pair
  of strings the same score.
\<close>

definition plain_speller :: speller where
  "plain_speller = \<lparr>spell_unknown = (\<lambda>w. False), english_unknown = (\<lambda>w. False),
                     correction = (\<lambda>w. None)\<rparr>"

definition flat_scorers :: "rat \<Rightarrow> scorers" where
  "flat_scorers c = \<lparr>WRatio = (\<lambda>a b. c), partial_ratio = (\<lambda>a b. c), token_set_ratio = (\<lambda>a b. c)\<rparr>"

text \<open>
  A formatter that prints the name of a result only, and a query that holds the marker
  text of the context block followed by a product line.
\<close>

definition name_only :: "scored \<Rightarrow> string" where
  "name_only r = ''- **'' @ p_name (fst r) @ ''**''"

definition marker_query :: string where
  "marker_query = ''matching products from the store inventory'' @ [CHR 0x0A] @ ''- **''"

text \<open>
  Similarity measures that give 0 when one of the strings is empty and 60 otherwise.
\<close>

definition sample_scorers :: scorers where
  "sample_scorers =
     \<lparr>WRatio = (\<lambda>a b. if a = [] \<or> b = [] then 0 else 60),
      partial_ratio = (\<lambda>a b. if a = [] \<or> b = [] then 0 else 60),
      token_set_ratio = (\<lambda>a b. if a = [] \<or> b = [] then 0 else 60)\<rparr>"

section \<open>Properties of the grid navigator\<close>

lemma place_aisle_out:
  "\<not> in_bounds rows cols (grid_x a, grid_y a) \<Longrightarrow> place_aisle rows cols st a = st"
  by (auto simp: place_aisle_def in_bounds_def Let_def)

lemma foldl_place_skip:
  "\<not> in_bounds rows cols (grid_x a, grid_y a)
   \<Longrightarrow> foldl (place_aisle rows cols) st aisles
       = foldl (place_aisle rows cols) st (filter (\<lambda>b. b \<noteq> a) aisles)"
  by (induction aisles arbitrary: st) (auto simp: place_aisle_out)

lemma dom_foldl_place:
  "dom (snd (foldl (place_aisle rows cols) st aisles))
     = dom (snd st) \<union> {a_name b | b. b \<in> set aisles \<and> in_bounds rows cols (grid_x b, grid_y b)}"
proof (induction aisles arbitrary: st)
  case Nil
  then show ?case by simp
next
  case (Cons a aisles)
  show ?case
  proof (cases "in_bounds rows cols (grid_x a, grid_y a)")
    case True
    then have "snd (place_aisle rows cols st a) = (snd st)(a_name a \<mapsto> (grid_x a, grid_y a))"
      by (simp add: place_aisle_def in_bounds_def Let_def)
    then have "dom (snd (place_aisle rows cols st a)) = insert (a_name a) (dom (snd st))"
      by simp
    then have "dom (snd (foldl (place_aisle rows cols) st (a # aisles)))
                 = insert (a_name a) (dom (snd st))
                   \<union> {a_name b | b. b \<in> set aisles \<and> in_bounds rows cols (grid_x b, grid_y b)}"
      by (simp add: Cons.IH)
    also have "\<dots> = dom (snd st)
                   \<union> {a_name b | b. b \<in> set (a # aisles) \<and> in_bounds rows cols (grid_x b, grid_y b)}"
      using True by auto
    finally show ?thesis .
  next
    case False
    then show ?thesis by (auto simp: Cons.IH place_aisle_out)
  qed
qed

lemma build_grid_lookup_none:
  assumes "a \<in> set aisles" "\<not> in_bounds rows cols (grid_x a, grid_y a)" "distinct (map a_name aisles)"
  shows "snd (build_grid rows cols aisles) (a_name a) = None"
proof -
  have "a_name a \<notin> {a_name b | b. b \<in> set aisles \<and> in_bounds rows cols (grid_x b, grid_y b)}"
  proof
    assume "a_name a \<in> {a_name b | b. b \<in> set aisles \<and> in_bounds rows cols (grid_x b, grid_y b)}"
    then obtain b where b: "b \<in> set aisles" "a_name b = a_name a" "in_bounds rows cols (grid_x b, grid_y b)"
      by auto
    from assms(1,3) b(1,2) have "b = a"
      by (meson distinct_map inj_onD)
    with b(3) assms(2) show False by simp
  qed
  then have "a_name a \<notin> dom (snd (build_grid rows cols aisles))"
    by (simp add: build_grid_def dom_foldl_place)
  then show ?thesis by blast
qed

lemma get_directions_missing:
  assumes "config_int cfg ''grid_rows'' 6 = Inr rows"
      and "config_int cfg ''grid_cols'' 5 = Inr cols"
      and "config_int cfg ''entrance_x'' 0 = Inr ex"
      and "config_int cfg ''entrance_y'' 0 = Inr ey"
      and "lookup_aisle (snd (build_grid rows cols aisles)) (p_aisle_name product) = None"
  shows "get_directions_to_product cfg aisles product =
           Inr \<lparr>r_found = False,
                r_directions = ''Sorry, I couldn'' @ [CHR 0x27] @ ''t find the location for aisle ''
                               @ fmt_opt (p_aisle_name product) @ ''.'',
                r_path = [], r_target = None, r_entrance = (ex, ey), r_steps = None\<rparr>"
  using assms
  by (simp add: get_directions_to_product_def build_store_grid_def Let_def case_prod_beta)

lemma default_cfg_ints:
  "config_int default_cfg ''grid_rows'' 6 = Inr 6"
  "config_int default_cfg ''grid_cols'' 5 = Inr 5"
  "config_int default_cfg ''entrance_x'' 0 = Inr 0"
  "config_int default_cfg ''entrance_y'' 0 = Inr 0"
  by (simp_all add: config_int_def default_cfg_def)



text \<open>
  Claim C4, as the code has it. When the configured grid size and entrance are integers
  and the aisle name of the product is absent from the lookup, the result is a failure:
  not found, the apology naming the aisle, an empty path, the entrance as the entrance,
  and no target at all (\<open>None\<close>, not the entrance).
\<close>

theorem missing_aisle_failure_result:
  assumes "config_int cfg ''grid_rows'' 6 = Inr rows"
      and "config_int cfg ''grid_cols'' 5 = Inr cols"
      and "config_int cfg ''entrance_x'' 0 = Inr ex"
      and "config_int cfg ''entrance_y'' 0 = Inr ey"
      and "lookup_aisle (snd (build_grid rows cols aisles)) (p_aisle_name product) = None"
  shows "get_directions_to_product cfg aisles product =
           Inr \<lparr>r_found = False,
                r_directions = ''Sorry, I couldn'' @ [CHR 0x27] @ ''t find the location for aisle ''
                               @ fmt_opt (p_aisle_name product) @ ''.'',
                r_path = [], r_target = None, r_entrance = (ex, ey), r_steps = None\<rparr>"
  using assms by (rule get_directions_missing)

theorem missing_aisle_failure_result_witness:
  "config_int default_cfg ''grid_rows'' 6 = Inr 6
   \<and> config_int default_cfg ''grid_cols'' 5 = Inr 5
   \<and> config_int default_cfg ''entrance_x'' 0 = Inr 0
   \<and> config_int default_cfg ''entrance_y'' 0 = Inr 0
   \<and> lookup_aisle (snd (build_grid 6 5 [aisle_door])) (p_aisle_name sugar) = None
   \<and> get_directions_to_product default_cfg [aisle_door] sugar = Inr missing_aisle_result"
proof -
  have look: "lookup_aisle (snd (build_grid 6 5 [aisle_door])) (p_aisle_name sugar) = None"
    by (simp add: lookup_aisle_def build_grid_def sugar_def aisle_door_def place_aisle_def empty_grid_def)
  from missing_aisle_failure_result[OF default_cfg_ints look] default_cfg_ints look
  show ?thesis by (simp add: sugar_def fmt_opt_def missing_aisle_result_def)
qed

text \<open>
  The claim as stated fails: for a product whose aisle is missing, the target field of the
  result is \<open>None\<close>, which is not the entrance coordinate.
\<close>

theorem missing_aisle_target_counterexample:
  "get_directions_to_product default_cfg [aisle_door] sugar = Inr missing_aisle_result
   \<and> r_entrance missing_aisle_result = (0, 0)
   \<and> r_target missing_aisle_result \<noteq> Some (r_entrance missing_aisle_result)"
proof -
  have look: "lookup_aisle (snd (build_grid 6 5 [aisle_door])) (p_aisle_name sugar) = None"
    by (simp add: lookup_aisle_def build_grid_def sugar_def aisle_door_def place_aisle_def empty_grid_def)
  have "get_directions_to_product default_cfg [aisle_door] sugar = Inr missing_aisle_result"
    using get_directions_missing[OF default_cfg_ints look]
    by (simp add: sugar_def fmt_opt_def missing_aisle_result_def)
  then show ?thesis by (simp add: missing_aisle_result_def)
qed

text \<open>
  Claim C9. An aisle whose stored coordinates lie outside the configured grid adds
  nothing to the grid or to the lookup: building from all aisles gives the same grid and
  lookup as building without it. With aisle names unique, as the database schema
  makes them, its name is absent from the lookup, so a directions request for a
  product of that aisle gets the failure result with an empty path.
\<close>

theorem out_of_bounds_aisle_omitted:
  assumes "a \<in> set aisles"
      and "\<not> in_bounds rows cols (grid_x a, grid_y a)"
      and "distinct (map a_name aisles)"
      and "config_int cfg ''grid_rows'' 6 = Inr rows"
      and "config_int cfg ''grid_cols'' 5 = Inr cols"
      and "config_int cfg ''entrance_x'' 0 = Inr ex"
      and "config_int cfg ''entrance_y'' 0 = Inr ey"
      and "p_aisle_name product = Some (a_name a)"
  shows "build_grid rows cols aisles = build_grid rows cols (filter (\<lambda>b. b \<noteq> a) aisles)
         \<and> snd (build_grid rows cols aisles) (a_name a) = None
         \<and> get_directions_to_product cfg aisles product =
             Inr \<lparr>r_found = False,
                  r_directions = ''Sorry, I couldn'' @ [CHR 0x27] @ ''t find the location for aisle ''
                                 @ a_name a @ ''.'',
                  r_path = [], r_target = None, r_entrance = (ex, ey), r_steps = None\<rparr>"
proof -
  have same: "build_grid rows cols aisles = build_grid rows cols (filter (\<lambda>b. b \<noteq> a) aisles)"
    unfolding build_grid_def using assms(2) by (rule foldl_place_skip)
  have none: "snd (build_grid rows cols aisles) (a_name a) = None"
    using assms(1-3) by (rule build_grid_lookup_none)
  then have "lookup_aisle (snd (build_grid rows cols aisles)) (p_aisle_name product) = None"
    by (simp add: lookup_aisle_def assms(8))
  from get_directions_missing[OF assms(4-7) this]
  have "get_directions_to_product cfg aisles product =
             Inr \<lparr>r_found = False,
                  r_directions = ''Sorry, I couldn'' @ [CHR 0x27] @ ''t find the location for aisle ''
                                 @ a_name a @ ''.'',
                  r_path = [], r_target = None, r_entrance = (ex, ey), r_steps = None\<rparr>"
    by (simp add: assms(8) fmt_opt_def)
  with same none show ?thesis by simp
qed

theorem out_of_bounds_aisle_omitted_witness:
  "aisle_far \<in> set [aisle_A1, aisle_far]
   \<and> \<not> in_bounds 6 5 (grid_x aisle_far, grid_y aisle_far)
   \<and> distinct (map a_name [aisle_A1, aisle_far])
   \<and> config_int default_cfg ''grid_rows'' 6 = Inr 6
   \<and> config_int default_cfg ''grid_cols'' 5 = Inr 5
   \<and> config_int default_cfg ''entrance_x'' 0 = Inr 0
   \<and> config_int default_cfg ''entrance_y'' 0 = Inr 0
   \<and> p_aisle_name garden_chair = Some (a_name aisle_far)
   \<and> build_grid 6 5 [aisle_A1, aisle_far] = build_grid 6 5 (filter (\<lambda>b. b \<noteq> aisle_far) [aisle_A1, aisle_far])
   \<and> snd (build_grid 6 5 [aisle_A1, aisle_far]) (a_name aisle_far) = None
   \<and> get_directions_to_product default_cfg [aisle_A1, aisle_far] garden_chair =
       Inr \<lparr>r_found = False,
            r_directions = ''Sorry, I couldn'' @ [CHR 0x27] @ ''t find the location for aisle Z9.'',
            r_path = [], r_target = None, r_entrance = (0, 0), r_steps = None\<rparr>"
proof -
  have h1: "aisle_far \<in> set [aisle_A1, aisle_far]" by simp
  have h2: "\<not> in_bounds 6 5 (grid_x aisle_far, grid_y aisle_far)"
    by (simp add: in_bounds_def aisle_far_def)
  have h3: "distinct (map a_name [aisle_A1, aisle_far])"
    by (simp add: aisle_A1_def aisle_far_def)
  have h8: "p_aisle_name garden_chair = Some (a_name aisle_far)"
    by (simp add: garden_chair_def aisle_far_def)
  have nm: "a_name aisle_far = ''Z9''"
    by (simp add: aisle_far_def)
  note r = out_of_bounds_aisle_omitted[OF h1 h2 h3 default_cfg_ints h8, unfolded nm append_Cons append_Nil]
  from r h1 h2 h3 h8 default_cfg_ints show ?thesis
    unfolding nm append_Cons append_Nil by blast
qed

section \<open>Properties of the fuzzy ranker\<close>

lemma startswith_str_in: "startswith s t \<Longrightarrow> str_in t s"
  by (simp add: startswith_def str_in_def)

lemma endswith_str_in: "endswith s t \<Longrightarrow> str_in t s"
  by (simp add: endswith_def str_in_def)

lemma term_score_substring:
  "str_in term (lower (p_name product)) \<Longrightarrow> term_score sc term product = max (weighted_score sc term product) 95"
  by (simp add: term_score_def Let_def)

lemma best_score_lower:
  "(b::rat) \<le> foldl (\<lambda>best term. max best (f term)) b ts"
proof (induction ts arbitrary: b)
  case Nil
  then show ?case by simp
next
  case (Cons a ts)
  have "b \<le> max b (f a)" by simp
  also have "\<dots> \<le> foldl (\<lambda>best term. max best (f term)) (max b (f a)) ts"
    by (rule Cons.IH)
  finally show ?case by simp
qed

lemma best_score_ge_term:
  "t \<in> set ts \<Longrightarrow> f t \<le> foldl (\<lambda>best term. max best (f term)) (b::rat) ts"
proof (induction ts arbitrary: b)
  case Nil
  then show ?case by simp
next
  case (Cons a ts)
  show ?case
  proof (cases "t = a")
    case True
    have "f a \<le> max b (f a)" by simp
    also have "\<dots> \<le> foldl (\<lambda>best term. max best (f term)) (max b (f a)) ts"
      by (rule best_score_lower)
    finally show ?thesis using True by simp
  next
    case False
    with Cons.prems have "t \<in> set ts" by simp
    from Cons.IH[OF this] show ?thesis by simp
  qed
qed

lemma best_score_upper:
  "b \<le> u \<Longrightarrow> (\<And>t. t \<in> set ts \<Longrightarrow> f t \<le> u) \<Longrightarrow> foldl (\<lambda>best term. max best (f term)) b ts \<le> (u::rat)"
  by (induction ts arbitrary: b) auto

lemma round_half_even_of_int: "round_half_even (of_int k) = k"
  by (simp add: round_half_even_def)

lemma round_half_even_bounds: "\<lfloor>x\<rfloor> \<le> round_half_even x \<and> round_half_even x \<le> \<lfloor>x\<rfloor> + 1"
  by (simp add: round_half_even_def Let_def)

lemma round_half_even_mono:
  assumes "x \<le> y"
  shows "round_half_even x \<le> round_half_even y"
proof (cases "\<lfloor>x\<rfloor> = \<lfloor>y\<rfloor>")
  case True
  have "x - of_int \<lfloor>x\<rfloor> \<le> y - of_int \<lfloor>y\<rfloor>"
    using assms True by simp
  then show ?thesis
    using True by (auto simp: round_half_even_def Let_def)
next
  case False
  with assms have "\<lfloor>x\<rfloor> < \<lfloor>y\<rfloor>"
    by (simp add: floor_mono order_less_le)
  then have "\<lfloor>x\<rfloor> + 1 \<le> \<lfloor>y\<rfloor>" by simp
  with round_half_even_bounds[of x] round_half_even_bounds[of y]
  show ?thesis by linarith
qed

lemma py_round1_mono: "x \<le> y \<Longrightarrow> py_round1 x \<le> py_round1 y"
proof -
  assume "x \<le> y"
  then have "round_half_even (x * 10) \<le> round_half_even (y * 10)"
    by (intro round_half_even_mono) simp
  then show ?thesis
    by (simp add: py_round1_def divide_right_mono)
qed

lemma py_round1_tenths: "py_round1 (of_int k / 10) = of_int k / 10"
  by (simp add: py_round1_def round_half_even_of_int)

lemma py_round1_95: "py_round1 95 = 95"
  using py_round1_tenths[of 950] by simp

lemma py_round1_100: "py_round1 100 = 100"
  using py_round1_tenths[of 1000] by simp

lemma lower_sugar: "lower (p_name sugar) = ''sugar''"
  by (simp add: sugar_def lower_def lower_char_def)

text \<open>
  Claim C10. In the scorer the branch for a name that starts or ends with the term is
  never taken: such a term is a substring of the name, so the substring branch applies
  and the score of the term is at least 95. The scorer equals the one without that branch.
\<close>

theorem starts_ends_branch_unreachable:
  "(startswith (lower (p_name product)) term \<or> endswith (lower (p_name product)) term
      \<longrightarrow> str_in term (lower (p_name product))
          \<and> term_score sc term product = max (weighted_score sc term product) 95
          \<and> 95 \<le> term_score sc term product)
   \<and> term_score sc term product =
       (if str_in term (lower (p_name product)) then max (weighted_score sc term product) 95
        else if str_in term (lower (p_keywords product)) then max (weighted_score sc term product) 75
        else weighted_score sc term product)"
  by (auto simp: term_score_def Let_def dest: startswith_str_in endswith_str_in)

theorem starts_ends_branch_unreachable_witness:
  "startswith (lower (p_name sugar)) ''sug''
   \<and> str_in ''sug'' (lower (p_name sugar))
   \<and> term_score (flat_scorers 40) ''sug'' sugar = max (weighted_score (flat_scorers 40) ''sug'' sugar) 95
   \<and> 95 \<le> term_score (flat_scorers 40) ''sug'' sugar"
proof -
  have h: "startswith (lower (p_name sugar)) ''sug''"
    by (simp add: lower_sugar startswith_def)
  with starts_ends_branch_unreachable[of sugar "''sug''" "flat_scorers 40"]
  show ?thesis by blast
qed

lemma fuzzy_result_entries:
  "set (search_products_fuzzy sp sc query products top_n thr)
     \<subseteq> {(p, py_round1 (best_score sc (expand_query (correct_query sp query)) p)) | p.
          p \<in> set products \<and> thr \<le> best_score sc (expand_query (correct_query sp query)) p}"
proof -
  have "set (slice_to top_n xs) \<subseteq> set xs" for xs :: "scored list"
    by (auto simp: slice_to_def dest: in_set_takeD)
  then have "set (search_products_fuzzy sp sc query products top_n thr)
          \<subseteq> set (score_products sc (expand_query (correct_query sp query)) thr products)"
    by (simp add: search_products_fuzzy_def Let_def sort_by_score_desc_def subset_iff)
       (metis set_sort subsetD)
  also have "\<dots> \<subseteq> {(p, py_round1 (best_score sc (expand_query (correct_query sp query)) p)) | p.
          p \<in> set products \<and> thr \<le> best_score sc (expand_query (correct_query sp query)) p}"
    by (auto simp: score_products_def Let_def split: if_splits)
  finally show ?thesis .
qed

lemma lower_in_expand: "lower q \<in> set (expand_query q)"
  by (simp add: expand_query_def expanded_terms_of_def)

text \<open>
  Claim C3. A term that is a substring of the lowercased name of a product scores at
  least 95 for that product, and so does the best score over any term list holding it.
  When the lowercased name holds the corrected query, every entry of the fuzzy result for
  that product has a match score of at least 95.
\<close>

theorem substring_scores_at_least_95:
  "(str_in term (lower (p_name product)) \<longrightarrow>
      95 \<le> term_score sc term product
      \<and> (term \<in> set expanded_terms \<longrightarrow> 95 \<le> best_score sc expanded_terms product))
   \<and> (str_in (lower (correct_query sp query)) (lower (p_name product)) \<longrightarrow>
        95 \<le> best_score sc (expand_query (correct_query sp query)) product
        \<and> (\<forall>r \<in> set (search_products_fuzzy sp sc query products top_n thr).
              fst r = product \<longrightarrow> 95 \<le> match_score r))"
proof -
  have one: "95 \<le> term_score sc t product" if "str_in t (lower (p_name product))" for t
    using that by (simp add: term_score_substring)
  have best: "95 \<le> best_score sc ts product"
    if "str_in t (lower (p_name product))" "t \<in> set ts" for t ts
  proof -
    have "95 \<le> term_score sc t product" using that(1) by (rule one)
    also have "\<dots> \<le> best_score sc ts product"
      unfolding best_score_def using that(2) by (rule best_score_ge_term)
    finally show ?thesis .
  qed
  have final: "95 \<le> match_score r"
    if sub: "str_in (lower (correct_query sp query)) (lower (p_name product))"
      and r: "r \<in> set (search_products_fuzzy sp sc query products top_n thr)" "fst r = product" for r
  proof -
    from r fuzzy_result_entries[of sp sc query products top_n thr]
    have "match_score r = py_round1 (best_score sc (expand_query (correct_query sp query)) product)"
      by (auto simp: match_score_def)
    moreover have "95 \<le> best_score sc (expand_query (correct_query sp query)) product"
      using sub lower_in_expand by (rule best)
    then have "py_round1 95 \<le> py_round1 (best_score sc (expand_query (correct_query sp query)) product)"
      by (rule py_round1_mono)
    ultimately show ?thesis by (simp add: py_round1_95)
  qed
  show ?thesis
    using one best final lower_in_expand by blast
qed

lemma cq_sugar: "correct_query plain_speller ''Sugar'' = ''sugar''"
  by (simp add: correct_query_def split_ws.simps lower_def lower_char_def correct_word_def
      plain_speller_def is_space_def)

lemma cq_x: "correct_query plain_speller ''x'' = ''x''"
  by (simp add: correct_query_def split_ws.simps lower_def lower_char_def correct_word_def
      plain_speller_def is_space_def)

lemma cq_empty: "correct_query sp '''' = ''''"
  by (simp add: correct_query_def split_ws.simps lower_def)

lemma eq_sugar: "expand_query ''sugar'' = [''sugar'']"
  by (simp add: expand_query_def expanded_terms_of_def INTENT_MAP_def str_in_def lower_def
      lower_char_def sublist_code prefix_code)

lemma eq_x: "expand_query ''x'' = [''x'']"
  by (simp add: expand_query_def expanded_terms_of_def INTENT_MAP_def str_in_def lower_def
      lower_char_def sublist_code prefix_code)

lemma eq_empty: "expand_query '''' = ['''']"
  by (simp add: expand_query_def expanded_terms_of_def INTENT_MAP_def str_in_def lower_def
      sublist_code prefix_code)

lemma ws_flat: "weighted_score (flat_scorers c) t p = c"
  by (simp add: weighted_score_def flat_scorers_def Let_def algebra_simps)

lemma fz_sugar: "search_products_fuzzy plain_speller (flat_scorers 40) ''Sugar'' [sugar] 5 50 = [(sugar, 95)]"
  by (simp add: search_products_fuzzy_def cq_sugar eq_sugar score_products_def best_score_def
      term_score_def ws_flat lower_sugar str_in_def sublist_code prefix_code Let_def py_round1_95
      sort_by_score_desc_def slice_to_def)

theorem substring_scores_at_least_95_witness:
  "str_in ''sugar'' (lower (p_name sugar))
   \<and> ''sugar'' \<in> set [''sugar'']
   \<and> 95 \<le> term_score (flat_scorers 40) ''sugar'' sugar
   \<and> 95 \<le> best_score (flat_scorers 40) [''sugar''] sugar
   \<and> str_in (lower (correct_query plain_speller ''Sugar'')) (lower (p_name sugar))
   \<and> (sugar, 95) \<in> set (search_products_fuzzy plain_speller (flat_scorers 40) ''Sugar'' [sugar] 5 50)
   \<and> 95 \<le> match_score (sugar, 95)"
proof -
  have h1: "str_in ''sugar'' (lower (p_name sugar))"
    unfolding lower_sugar by (simp add: str_in_def)
  have h2: "str_in (lower (correct_query plain_speller ''Sugar'')) (lower (p_name sugar))"
    unfolding cq_sugar lower_sugar by (simp add: str_in_def lower_def lower_char_def)
  have h3: "(sugar, 95) \<in> set (search_products_fuzzy plain_speller (flat_scorers 40) ''Sugar'' [sugar] 5 50)"
    by (simp add: fz_sugar)
  from substring_scores_at_least_95[of "''sugar''" sugar "flat_scorers 40" "[''sugar'']"
      plain_speller "''Sugar''" "[sugar]" 5 50] h1 h2 h3
  show ?thesis by (simp add: match_score_def)
qed

lemma intents_lowercase: "(intent, kws) \<in> set INTENT_MAP \<Longrightarrow> lower intent = intent"
  by (auto simp: INTENT_MAP_def lower_def lower_char_def)

lemma str_in_lower: "str_in t s \<Longrightarrow> str_in (lower t) (lower s)"
  unfolding str_in_def lower_def by (rule map_mono_sublist)

text \<open>
  Claim C8. The expansion of a query has no repeated term, is never empty and holds the
  lowercased query. For every intent key of the intent map that occurs in the query, as
  given or lowercased, it holds every synonym listed for that key.
\<close>

theorem expand_query_contents:
  "distinct (expand_query query)
   \<and> expand_query query \<noteq> []
   \<and> lower query \<in> set (expand_query query)
   \<and> ((intent, kws) \<in> set INTENT_MAP \<and> (str_in intent (lower query) \<or> str_in intent query)
        \<longrightarrow> set kws \<subseteq> set (expand_query query))"
proof -
  have d: "distinct (expand_query query)"
    by (simp add: expand_query_def)
  have m: "lower query \<in> set (expand_query query)"
    by (rule lower_in_expand)
  then have n: "expand_query query \<noteq> []" by auto
  have s: "set kws \<subseteq> set (expand_query query)"
    if mem: "(intent, kws) \<in> set INTENT_MAP" and occ: "str_in intent (lower query) \<or> str_in intent query"
  proof -
    have "str_in intent (lower query)"
      using occ str_in_lower[of intent query] intents_lowercase[OF mem] by auto
    with mem have "(intent, kws) \<in> set (filter (\<lambda>(intent, kws). str_in intent (lower query)) INTENT_MAP)"
      by simp
    then have "set kws \<subseteq> set (concat (map snd (filter (\<lambda>(intent, kws). str_in intent (lower query)) INTENT_MAP)))"
      by force
    then show ?thesis
      by (auto simp: expand_query_def expanded_terms_of_def)
  qed
  from d m n s show ?thesis by blast
qed

theorem expand_query_contents_witness:
  "(''cold'', [''cold'', ''flu'', ''fever'', ''cough'', ''sardi'', ''khansi'', ''bukhar'', ''paracetamol''])
      \<in> set INTENT_MAP
   \<and> str_in ''cold'' (lower ''a COLD'')
   \<and> distinct (expand_query ''a COLD'')
   \<and> expand_query ''a COLD'' \<noteq> []
   \<and> ''a cold'' \<in> set (expand_query ''a COLD'')
   \<and> set [''cold'', ''flu'', ''fever'', ''cough'', ''sardi'', ''khansi'', ''bukhar'', ''paracetamol'']
        \<subseteq> set (expand_query ''a COLD'')"
proof -
  have h1: "(''cold'', [''cold'', ''flu'', ''fever'', ''cough'', ''sardi'', ''khansi'', ''bukhar'', ''paracetamol''])
      \<in> set INTENT_MAP"
    by (simp add: INTENT_MAP_def)
  have lw: "lower ''a COLD'' = ''a cold''"
    by (simp add: lower_def lower_char_def)
  have h2: "str_in ''cold'' (lower ''a COLD'')"
    by (simp add: lw str_in_def sublist_code prefix_code)
  from expand_query_contents[of "''a COLD''" "''cold''"
      "[''cold'', ''flu'', ''fever'', ''cough'', ''sardi'', ''khansi'', ''bukhar'', ''paracetamol'']"]
    h1 h2
  show ?thesis unfolding lw by blast
qed

lemma weighted_sum_le_100:
  "n \<le> 100 \<Longrightarrow> k \<le> 100 \<Longrightarrow> c \<le> 100 \<Longrightarrow> b \<le> 100
   \<Longrightarrow> n * (50 / 100) + k * (25 / 100) + c * (15 / 100) + b * (10 / 100) \<le> (100::rat)"
  by simp

lemma weighted_score_le_100:
  assumes "scores_in_range sc"
  shows "weighted_score sc t product \<le> 100"
proof -
  let ?name = "lower (p_name product)"
  have n: "max (WRatio sc t ?name) (partial_ratio sc t ?name) \<le> 100"
    using assms by (simp add: scores_in_range_def)
  have k: "token_set_ratio sc t (lower (p_keywords product)) \<le> 100"
    using assms by (simp add: scores_in_range_def)
  have c: "WRatio sc t (lower (p_category product)) \<le> 100"
    using assms by (simp add: scores_in_range_def)
  have b: "WRatio sc t (lower (p_brand product)) \<le> 100"
    using assms by (simp add: scores_in_range_def)
  show ?thesis
    unfolding weighted_score_def Let_def by (rule weighted_sum_le_100[OF n k c b])
qed

lemma term_score_le_100:
  "scores_in_range sc \<Longrightarrow> term_score sc t product \<le> 100"
  using weighted_score_le_100[of sc t product]
  by (simp add: term_score_def Let_def)

lemma best_score_le_100:
  assumes "scores_in_range sc"
  shows "best_score sc terms product \<le> 100"
  unfolding best_score_def
  by (rule best_score_upper) (simp_all add: term_score_le_100[OF assms])

lemma sorted_by_score_desc:
  "sorted_wrt (\<lambda>a b. match_score b \<le> match_score a) (sort_by_score_desc rs)"
proof -
  have "sorted (map (\<lambda>r. - match_score r) (sort_key (\<lambda>r. - match_score r) rs))"
    by (rule sorted_sort_key)
  then show ?thesis
    by (simp add: sort_by_score_desc_def sorted_map)
qed

lemma slice_to_sorted:
  "sorted_wrt P xs \<Longrightarrow> sorted_wrt P (slice_to n xs)"
  by (simp add: slice_to_def sorted_wrt_take)

lemma slice_to_length: "0 \<le> n \<Longrightarrow> length (slice_to n xs) \<le> nat n"
  by (simp add: slice_to_def)

lemma sort_by_score_desc_stable:
  "filter (\<lambda>r. match_score r = s) (sort_by_score_desc rs) = filter (\<lambda>r. match_score r = s) rs"
  using sort_key_stable[of "\<lambda>r. - match_score r" "- s" rs]
  by (simp add: sort_by_score_desc_def)

lemma score_products_filter:
  "map fst (filter (\<lambda>r. match_score r = s) (score_products sc ts thr products))
   = filter (\<lambda>p. thr \<le> best_score sc ts p \<and> py_round1 (best_score sc ts p) = s) products"
  by (induction products) (simp_all add: score_products_def Let_def match_score_def)

lemma slice_to_prefix: "0 \<le> n \<Longrightarrow> prefix (slice_to n xs) xs"
  by (simp add: slice_to_def take_is_prefix)

lemma fuzzy_result_stable:
  assumes "0 \<le> top_n"
  shows "prefix (map fst (filter (\<lambda>r. match_score r = s)
                           (search_products_fuzzy sp sc query products top_n thr)))
                (filter (\<lambda>p. thr \<le> best_score sc (expand_query (correct_query sp query)) p
                           \<and> py_round1 (best_score sc (expand_query (correct_query sp query)) p) = s)
                        products)"
proof -
  let ?ts = "expand_query (correct_query sp query)"
  let ?S = "score_products sc ?ts thr products"
  have "prefix (slice_to top_n (sort_by_score_desc ?S)) (sort_by_score_desc ?S)"
    using assms by (rule slice_to_prefix)
  then have "prefix (filter (\<lambda>r. match_score r = s) (slice_to top_n (sort_by_score_desc ?S)))
                    (filter (\<lambda>r. match_score r = s) (sort_by_score_desc ?S))"
    by (rule filter_mono_prefix)
  then have "prefix (filter (\<lambda>r. match_score r = s) (slice_to top_n (sort_by_score_desc ?S)))
                    (filter (\<lambda>r. match_score r = s) ?S)"
    by (simp only: sort_by_score_desc_stable)
  then have "prefix (map fst (filter (\<lambda>r. match_score r = s) (slice_to top_n (sort_by_score_desc ?S))))
                    (map fst (filter (\<lambda>r. match_score r = s) ?S))"
    by (rule map_mono_prefix)
  then show ?thesis
    by (simp only: score_products_filter search_products_fuzzy_def Let_def)
qed

lemma sample_in_range: "scores_in_range sample_scorers"
  by (simp add: scores_in_range_def sample_scorers_def)

lemma cq_r: "correct_query plain_speller ''r'' = ''r''"
  by (simp add: correct_query_def split_ws.simps lower_def lower_char_def correct_word_def
      plain_speller_def is_space_def)

lemma eq_r: "expand_query ''r'' = [''r'']"
  by (simp add: expand_query_def expanded_terms_of_def INTENT_MAP_def str_in_def lower_def
      lower_char_def sublist_code prefix_code)

lemma lower_trolley: "lower (p_name trolley) = ''trolley''"
  by (simp add: trolley_def lower_def lower_char_def)

lemma ws_sample:
  "weighted_score sample_scorers ''r'' sugar = 54" "weighted_score sample_scorers ''r'' trolley = 39"
  by (simp_all add: weighted_score_def sample_scorers_def sugar_def trolley_def lower_def
      lower_char_def Let_def)

lemma bs_sample:
  "best_score sample_scorers [''r''] sugar = 95" "best_score sample_scorers [''r''] trolley = 95"
  unfolding best_score_def term_score_def Let_def lower_sugar lower_trolley
  by (simp_all add: ws_sample str_in_def sublist_code prefix_code)

lemma fz_r:
  "search_products_fuzzy plain_speller sample_scorers ''r'' [sugar, trolley] 5 50
   = [(sugar, 95), (trolley, 95)]"
proof -
  have sp: "score_products sample_scorers [''r''] 50 [sugar, trolley] = [(sugar, 95), (trolley, 95)]"
    by (simp add: score_products_def bs_sample Let_def py_round1_95)
  have so: "sort_by_score_desc [(sugar, 95), (trolley, 95)] = [(sugar, 95), (trolley, 95)]"
    by (simp add: sort_by_score_desc_def match_score_def)
  show ?thesis
    unfolding search_products_fuzzy_def Let_def cq_r eq_r sp so
    by (simp add: slice_to_def)
qed

text \<open>
  Claim C2, as the code has it. With similarity measures ranging over 0 to 100 and
  \<open>top_n\<close> not negative, the fuzzy result has at most \<open>top_n\<close> entries and its scores
  never increase along the list. Entries with equal scores keep the order of the catalog:
  for every score \<open>s\<close>, the returned products with score \<open>s\<close> are, in order, the first
  products of the catalog whose best score passes the threshold and rounds to \<open>s\<close>.
  Every entry is a product of the catalog with its best score rounded to one decimal
  place, where the best score is at least the threshold; so the returned score is at most
  100, at least the threshold rounded to one decimal place, and at least the threshold
  itself when the threshold is a multiple of one tenth.
\<close>

theorem fuzzy_result_sorted_and_bounded:
  assumes "scores_in_range sc" and "0 \<le> top_n"
  shows "length (search_products_fuzzy sp sc query products top_n thr) \<le> nat top_n
         \<and> sorted_wrt (\<lambda>a b. match_score b \<le> match_score a)
              (search_products_fuzzy sp sc query products top_n thr)
         \<and> prefix (map fst (filter (\<lambda>r. match_score r = s)
                                (search_products_fuzzy sp sc query products top_n thr)))
                  (filter (\<lambda>p. thr \<le> best_score sc (expand_query (correct_query sp query)) p
                             \<and> py_round1 (best_score sc (expand_query (correct_query sp query)) p) = s)
                          products)
         \<and> (\<forall>r \<in> set (search_products_fuzzy sp sc query products top_n thr).
               fst r \<in> set products
               \<and> match_score r = py_round1 (best_score sc (expand_query (correct_query sp query)) (fst r))
               \<and> thr \<le> best_score sc (expand_query (correct_query sp query)) (fst r)
               \<and> py_round1 thr \<le> match_score r \<and> match_score r \<le> 100
               \<and> (thr = of_int k / 10 \<longrightarrow> thr \<le> match_score r))"
proof -
  let ?R = "search_products_fuzzy sp sc query products top_n thr"
  let ?best = "best_score sc (expand_query (correct_query sp query))"
  have len: "length ?R \<le> nat top_n"
    using assms(2) by (simp add: search_products_fuzzy_def Let_def slice_to_length)
  have srt: "sorted_wrt (\<lambda>a b. match_score b \<le> match_score a) ?R"
    by (simp add: search_products_fuzzy_def Let_def slice_to_sorted sorted_by_score_desc)
  have stb: "prefix (map fst (filter (\<lambda>r. match_score r = s) ?R))
                    (filter (\<lambda>p. thr \<le> ?best p \<and> py_round1 (?best p) = s) products)"
    using assms(2) by (rule fuzzy_result_stable)
  have bnd: "fst r \<in> set products \<and> match_score r = py_round1 (?best (fst r)) \<and> thr \<le> ?best (fst r)
             \<and> py_round1 thr \<le> match_score r \<and> match_score r \<le> 100
             \<and> (thr = of_int k / 10 \<longrightarrow> thr \<le> match_score r)" if "r \<in> set ?R" for r
  proof -
    from that fuzzy_result_entries[of sp sc query products top_n thr]
    obtain p where r: "r = (p, py_round1 (?best p))" and p: "p \<in> set products"
      and t: "thr \<le> ?best p"
      by auto
    have lo: "py_round1 thr \<le> py_round1 (?best p)" using t by (rule py_round1_mono)
    have "py_round1 (?best p) \<le> py_round1 100"
      using best_score_le_100[OF assms(1)] by (rule py_round1_mono)
    then have hi: "py_round1 (?best p) \<le> 100" by (simp add: py_round1_100)
    have "thr \<le> py_round1 (?best p)" if "thr = of_int k / 10"
      using lo that by (simp add: py_round1_tenths)
    with lo hi p t show ?thesis by (simp add: r match_score_def)
  qed
  from len srt stb bnd show ?thesis by blast
qed

theorem fuzzy_result_sorted_and_bounded_witness:
  "scores_in_range sample_scorers \<and> (0::int) \<le> 5
   \<and> (trolley, 95) \<in> set (search_products_fuzzy plain_speller sample_scorers ''r'' [sugar, trolley] 5 50)
   \<and> (50::rat) = of_int 500 / 10
   \<and> search_products_fuzzy plain_speller sample_scorers ''r'' [sugar, trolley] 5 50
       = [(sugar, 95), (trolley, 95)]
   \<and> length (search_products_fuzzy plain_speller sample_scorers ''r'' [sugar, trolley] 5 50) \<le> nat 5
   \<and> sorted_wrt (\<lambda>a b. match_score b \<le> match_score a)
        (search_products_fuzzy plain_speller sample_scorers ''r'' [sugar, trolley] 5 50)
   \<and> prefix (map fst (filter (\<lambda>r. match_score r = 95)
                         (search_products_fuzzy plain_speller sample_scorers ''r'' [sugar, trolley] 5 50)))
            (filter (\<lambda>p. 50 \<le> best_score sample_scorers (expand_query (correct_query plain_speller ''r'')) p
                       \<and> py_round1 (best_score sample_scorers (expand_query (correct_query plain_speller ''r'')) p) = 95)
                    [sugar, trolley])
   \<and> py_round1 50 \<le> match_score (trolley, 95) \<and> match_score (trolley, 95) \<le> 100
   \<and> 50 \<le> match_score (trolley, 95)"
proof -
  have h1: "scores_in_range sample_scorers" by (rule sample_in_range)
  have h2: "(0::int) \<le> 5" by simp
  have h3: "(trolley, 95) \<in> set (search_products_fuzzy plain_speller sample_scorers ''r'' [sugar, trolley] 5 50)"
    by (simp add: fz_r)
  have h4: "(50::rat) = of_int 500 / 10" by simp
  from fuzzy_result_sorted_and_bounded[OF h1 h2, of plain_speller "''r''" "[sugar, trolley]" 50 95 500] h1 h2 h3 h4 fz_r
  show ?thesis by blast
qed

text \<open>
  The threshold is compared with the best score before rounding: a best score of 50.03
  passes the threshold 50.01 and is stored as 50.0.
\<close>

lemma rounding_below_threshold:
  "(5001 / 100 :: rat) \<le> 5003 / 100 \<and> py_round1 (5003 / 100) = 50 \<and> py_round1 (5003 / 100) < 5001 / 100"
proof -
  have f: "\<lfloor>(5003 / 100 * 10 :: rat)\<rfloor> = 500"
    by (rule floor_unique) simp_all
  have "py_round1 (5003 / 100) = 50"
    by (simp only: py_round1_def round_half_even_def Let_def f) simp
  then show ?thesis by simp
qed

text \<open>
  The claim as stated fails on two products that both hold the term in their names: each
  gets the score 95, so the result is not strictly descending. The two keep the order
  they have in the catalog.
\<close>

theorem fuzzy_result_ties_counterexample:
  "search_products_fuzzy plain_speller sample_scorers ''r'' [sugar, trolley] 5 50
     = [(sugar, 95), (trolley, 95)]
   \<and> \<not> match_score (trolley, 95) < match_score (sugar, 95)"
  by (simp add: fz_r match_score_def)

section \<open>Properties of the search endpoint and the reply pipeline\<close>

lemma strip_empty: "strip [] = []"
  by (simp add: strip_def)

text \<open>
  The search endpoint answers a request whose query is empty or blank with the error
  body \<open>No query provided\<close> and status 400, whatever the catalog, the matcher and the
  scorers are. This holds when the argument \<open>n\<close> is absent or an integer.
\<close>

lemma search_endpoint_guards_empty_query:
  assumes "strip (case args ''q'' of None \<Rightarrow> [] | Some v \<Rightarrow> v) = []"
    and "(case args ''n'' of None \<Rightarrow> Inr 5 | Some v \<Rightarrow> py_int v) = Inr top_n"
  shows "search_endpoint client sp sc products args = Inr (Error_response ''No query provided'' 400)"
  using assms by (simp add: search_endpoint_def Let_def)

lemma term_score_empty_term: "95 \<le> term_score sc [] p"
  by (simp add: term_score_def Let_def str_in_def)

lemma best_score_empty_query: "95 \<le> best_score sc (expand_query (correct_query sp [])) p"
proof -
  have "95 \<le> term_score sc [] p" by (rule term_score_empty_term)
  also have "\<dots> \<le> best_score sc [[]] p"
    unfolding best_score_def by (rule best_score_ge_term) simp
  finally show ?thesis by (simp add: cq_empty eq_empty)
qed

lemma score_products_all:
  "(\<And>p. thr \<le> best_score sc ts p)
   \<Longrightarrow> score_products sc ts thr products = map (\<lambda>p. (p, py_round1 (best_score sc ts p))) products"
  by (induction products) (simp_all add: score_products_def Let_def)

lemma fuzzy_empty_query_length:
  assumes "0 \<le> top_n" and "thr \<le> 95"
  shows "length (search_products_fuzzy sp sc [] products top_n thr) = min (nat top_n) (length products)"
proof -
  have "thr \<le> best_score sc (expand_query (correct_query sp [])) p" for p
    using best_score_empty_query[of sc sp p] assms(2) by linarith
  then have "score_products sc (expand_query (correct_query sp [])) thr products
             = map (\<lambda>p. (p, py_round1 (best_score sc (expand_query (correct_query sp [])) p))) products"
    by (rule score_products_all)
  then show ?thesis
    using assms(1)
    by (simp add: search_products_fuzzy_def Let_def slice_to_def sort_by_score_desc_def min.commute)
qed

lemma fuzzy_empty_query_scores:
  assumes "r \<in> set (search_products_fuzzy sp sc [] products top_n thr)"
  shows "fst r \<in> set products \<and> 95 \<le> match_score r"
proof -
  from assms fuzzy_result_entries[of sp sc "[]" products top_n thr]
  obtain p where r: "r = (p, py_round1 (best_score sc (expand_query (correct_query sp [])) p))"
    and p: "p \<in> set products"
    by auto
  have "py_round1 95 \<le> py_round1 (best_score sc (expand_query (correct_query sp [])) p)"
    using best_score_empty_query by (rule py_round1_mono)
  then show ?thesis using p by (simp add: r match_score_def py_round1_95)
qed

lemma search_with_llm_nonempty:
  "1 \<le> top_n \<Longrightarrow> search_with_llm client query products top_n = Some rs \<Longrightarrow> rs \<noteq> []"
  by (auto simp: search_with_llm_def Let_def slice_to_def split: option.splits if_splits)

text \<open>
  Claim C6. \<open>search_products\<close> has no test for an empty query. The empty term is a
  substring of every name, so every product of the catalog gets a score of at least 95.
  For a catalog that is not empty, \<open>top_n\<close> of at least 1 and a threshold of at most 95
  (the default is 50), the search for the empty query returns a result that is not
  empty; the fuzzy ranker returns \<open>top_n\<close> products, or the whole catalog when it is
  shorter, each with a score of at least 95, and this is the result of the search when
  the remote matcher gives none.
\<close>

theorem empty_query_ranks_catalog:
  assumes "products \<noteq> []" and "1 \<le> top_n" and "thr \<le> 95"
  shows "search_products client sp sc products [] top_n thr \<noteq> []
         \<and> length (search_products_fuzzy sp sc [] products top_n thr) = min (nat top_n) (length products)
         \<and> (\<forall>r \<in> set (search_products_fuzzy sp sc [] products top_n thr).
               fst r \<in> set products \<and> 95 \<le> match_score r)
         \<and> (search_with_llm client [] products top_n = None
               \<longrightarrow> search_products client sp sc products [] top_n thr
                   = search_products_fuzzy sp sc [] products top_n thr)"
proof -
  have len: "length (search_products_fuzzy sp sc [] products top_n thr) = min (nat top_n) (length products)"
    using assms(2,3) by (intro fuzzy_empty_query_length) simp_all
  have "0 < min (nat top_n) (length products)"
    using assms(1,2) by simp
  with len have "0 < length (search_products_fuzzy sp sc [] products top_n thr)"
    by simp
  then have ne: "search_products_fuzzy sp sc [] products top_n thr \<noteq> []"
    by auto
  have a: "search_products client sp sc products [] top_n thr \<noteq> []"
  proof (cases "search_with_llm client [] products top_n")
    case None
    then show ?thesis using assms(1) ne by (simp add: search_products_def)
  next
    case (Some rs)
    then have "rs \<noteq> []" using assms(2) by (intro search_with_llm_nonempty)
    then show ?thesis using assms(1) Some by (simp add: search_products_def)
  qed
  have c: "search_products client sp sc products [] top_n thr
           = search_products_fuzzy sp sc [] products top_n thr"
    if "search_with_llm client [] products top_n = None"
    using that assms(1) by (simp add: search_products_def)
  from a len c fuzzy_empty_query_scores[of _ sp sc products top_n thr] show ?thesis by blast
qed

theorem empty_query_ranks_catalog_witness:
  "[sugar, trolley] \<noteq> [] \<and> (1::int) \<le> 5 \<and> (50::rat) \<le> 95
   \<and> search_with_llm None [] [sugar, trolley] 5 = None
   \<and> search_products None plain_speller sample_scorers [sugar, trolley] [] 5 50 \<noteq> []
   \<and> length (search_products_fuzzy plain_speller sample_scorers [] [sugar, trolley] 5 50) = 2
   \<and> search_products None plain_speller sample_scorers [sugar, trolley] [] 5 50
       = search_products_fuzzy plain_speller sample_scorers [] [sugar, trolley] 5 50"
proof -
  have h1: "[sugar, trolley] \<noteq> []" by simp
  have h2: "(1::int) \<le> 5" by simp
  have h3: "(50::rat) \<le> 95" by simp
  have h4: "search_with_llm None [] [sugar, trolley] 5 = None"
    by (simp add: search_with_llm_def)
  note t = empty_query_ranks_catalog[OF h1 h2 h3, of None plain_speller sample_scorers]
  from t have a: "search_products None plain_speller sample_scorers [sugar, trolley] [] 5 50 \<noteq> []"
    by blast
  from t have "length (search_products_fuzzy plain_speller sample_scorers [] [sugar, trolley] 5 50)
               = min (nat 5) (length [sugar, trolley])"
    by blast
  then have b: "length (search_products_fuzzy plain_speller sample_scorers [] [sugar, trolley] 5 50) = 2"
    by simp
  from t h4 have c: "search_products None plain_speller sample_scorers [sugar, trolley] [] 5 50
       = search_products_fuzzy plain_speller sample_scorers [] [sugar, trolley] 5 50"
    by blast
  from h1 h2 h3 h4 a b c show ?thesis by blast
qed

lemma bs_empty_sample:
  "best_score sample_scorers [[]] sugar = 95" "best_score sample_scorers [[]] trolley = 95"
  by (simp_all add: best_score_def term_score_def Let_def str_in_def weighted_score_def
      sample_scorers_def)

lemma fz_empty_query:
  "search_products_fuzzy plain_speller sample_scorers [] [sugar, trolley] top_n 50
   = slice_to top_n [(sugar, 95), (trolley, 95)]"
proof -
  have sp: "score_products sample_scorers [[]] 50 [sugar, trolley] = [(sugar, 95), (trolley, 95)]"
    by (simp add: score_products_def bs_empty_sample Let_def py_round1_95)
  have so: "sort_by_score_desc [(sugar, 95), (trolley, 95)] = [(sugar, 95), (trolley, 95)]"
    by (simp add: sort_by_score_desc_def match_score_def)
  show ?thesis
    unfolding search_products_fuzzy_def Let_def cq_empty eq_empty sp so by simp
qed

text \<open>
  The empty query does not give an empty result: on a store with two products and no
  remote matcher, \<open>search_products\<close> returns both products with the score 95.
\<close>

theorem empty_query_counterexample:
  "search_products None plain_speller sample_scorers [sugar, trolley] [] 5 50
     = [(sugar, 95), (trolley, 95)]
   \<and> search_products None plain_speller sample_scorers [sugar, trolley] [] 5 50 \<noteq> []"
  by (simp add: search_products_def search_with_llm_def fz_empty_query slice_to_def)

lemma sublist_sep:
  assumes "c \<notin> set pat"
  shows "sublist pat (xs @ c # ys) \<longleftrightarrow> sublist pat xs \<or> sublist pat ys"
proof
  assume "sublist pat (xs @ c # ys)"
  then consider "sublist pat xs" | "sublist pat (c # ys)"
    | xs1 xs2 where "pat = xs1 @ xs2" "suffix xs1 xs" "prefix xs2 (c # ys)"
    by (auto simp: sublist_append)
  then show "sublist pat xs \<or> sublist pat ys"
  proof cases
    case 1
    then show ?thesis by simp
  next
    case 2
    then have "prefix pat (c # ys) \<or> sublist pat ys"
      by (simp add: sublist_Cons_right)
    moreover have "pat = []" if "prefix pat (c # ys)"
      using that assms by (cases pat) auto
    ultimately show ?thesis by auto
  next
    case 3
    have "xs2 = []"
      using 3(1,3) assms by (cases xs2) auto
    with 3 show ?thesis by (auto simp: suffix_imp_sublist)
  qed
next
  assume "sublist pat xs \<or> sublist pat ys"
  then show "sublist pat (xs @ c # ys)"
    by (auto simp: sublist_append sublist_Cons_right)
qed

lemma random_choice_mem: "seq \<noteq> [] \<Longrightarrow> random_choice r seq \<in> set seq"
  by (simp add: random_choice_def)

lemma no_match_nonempty: "s \<in> set no_match \<Longrightarrow> s \<noteq> []"
  by (auto simp: no_match_def)

lemma generic_nonempty: "s \<in> set generic \<Longrightarrow> s \<noteq> []"
  by (auto simp: generic_def)

lemma found_response_nonempty: "found_response lines \<noteq> []"
  by (simp add: found_response_def Let_def)

lemma fallback_nonempty: "generate_fallback_response r messages \<noteq> []"
proof -
  have a: "random_choice r no_match \<noteq> []"
    by (rule no_match_nonempty, rule random_choice_mem) (simp add: no_match_def)
  have b: "random_choice r generic \<noteq> []"
    by (rule generic_nonempty, rule random_choice_mem) (simp add: generic_def)
  show ?thesis
    by (simp add: generate_fallback_response_def Let_def found_response_nonempty a b)
qed

lemma context_empty_catalog:
  "build_context_prompt fmt q [] None = ''No matching products found in the store inventory.''"
  by (simp add: build_context_prompt_def)

lemma aug_has_no_match:
  "str_in ''No matching products found''
     (augmented_query q ''No matching products found in the store inventory.'')"
proof -
  have "augmented_query q ''No matching products found in the store inventory.''
        = (''Customer'' @ [CHR 0x27] @ ''s question: '' @ [CHR 0x22] @ q @ [CHR 0x22]
            @ [CHR 0x0A, CHR 0x0A] @ ''Store inventory search results:'' @ [CHR 0x0A])
          @ ''No matching products found''
          @ ('' in the store inventory.'' @ [CHR 0x0A, CHR 0x0A] @ ''Please respond to the customer''
             @ [CHR 0x27] @ ''s question using the information above. Be conversational and helpful.'')"
    by (simp add: augmented_query_def)
  then show ?thesis
    unfolding str_in_def by (simp only: sublist_appendI)
qed

lemma aug_marker:
  "str_in ''matching products from the store inventory''
     (augmented_query q ''No matching products found in the store inventory.'')
   \<longleftrightarrow> str_in ''matching products from the store inventory'' q"
proof -
  let ?m = "''matching products from the store inventory''"
  let ?pre = "''Customer'' @ [CHR 0x27] @ ''s question: ''"
  let ?post = "[CHR 0x0A, CHR 0x0A] @ ''Store inventory search results:'' @ [CHR 0x0A]
     @ ''No matching products found in the store inventory.''
     @ [CHR 0x0A, CHR 0x0A] @ ''Please respond to the customer'' @ [CHR 0x27]
     @ ''s question using the information above. Be conversational and helpful.''"
  have q: "CHR 0x22 \<notin> set ?m" by simp
  have e: "augmented_query q ''No matching products found in the store inventory.''
           = ?pre @ CHR 0x22 # (q @ CHR 0x22 # ?post)"
    by (simp add: augmented_query_def)
  have p1: "\<not> sublist ?m ?pre"
    by (simp add: sublist_code prefix_code)
  have p2: "\<not> sublist ?m ?post"
    by (simp add: sublist_code prefix_code)
  show ?thesis
    unfolding str_in_def e sublist_sep[OF q] using p1 p2 by blast
qed

lemma chat_empty_catalog:
  "chat client sp sc fmt r cfg aisles [] query history =
     Inr \<lparr>c_response = generate_fallback_response r
               (\<lparr>m_role = ''system'',
                  m_content = SYSTEM_PROMPT (case cfg ''store_name'' of
                                               None \<Rightarrow> ''My Supermarket''
                                             | Some v \<Rightarrow> if v \<noteq> [] then v else ''My Supermarket'')\<rparr>
                # drop (length history - 6) history
                @ [\<lparr>m_role = ''user'',
                     m_content = augmented_query query
                                   ''No matching products found in the store inventory.''\<rparr>]),
           c_products = [], c_directions = None, c_query = query\<rparr>"
  by (simp add: chat_def search_products_def Let_def context_empty_catalog generate_llm_response_def)

lemma fallback_apology:
  assumes "\<not> str_in ''matching products from the store inventory'' query"
  shows "generate_fallback_response r
           (ms @ [\<lparr>m_role = ''user'',
                    m_content = augmented_query query
                                  ''No matching products found in the store inventory.''\<rparr>])
         = random_choice r no_match"
  using assms by (simp add: generate_fallback_response_def Let_def aug_marker aug_has_no_match)

text \<open>
  Claim C5, as the code has it. On an empty catalog the search returns the empty
  sequence for every query, and \<open>chat\<close> returns (it does not raise) a result with no
  products, no directions and a reply that is never the empty string. When the query
  does not hold the marker text \<open>matching products from the store inventory\<close>, the
  reply is one of the three apologies for a product that was not found.
\<close>

theorem empty_catalog_reply:
  "search_products client sp sc [] query top_n thr = []
   \<and> (\<exists>res. chat client sp sc fmt r cfg aisles [] query history = Inr res
          \<and> c_products res = [] \<and> c_directions res = None \<and> c_query res = query
          \<and> c_response res \<noteq> []
          \<and> (\<not> str_in ''matching products from the store inventory'' query
                \<longrightarrow> c_response res = random_choice r no_match \<and> c_response res \<in> set no_match))"
proof -
  have s: "search_products client sp sc [] query top_n thr = []"
    by (simp add: search_products_def)
  let ?sys = "\<lparr>m_role = ''system'',
                 m_content = SYSTEM_PROMPT (case cfg ''store_name'' of
                                              None \<Rightarrow> ''My Supermarket''
                                            | Some v \<Rightarrow> if v \<noteq> [] then v else ''My Supermarket'')\<rparr>"
  let ?ms = "?sys # drop (length history - 6) history"
  let ?user = "\<lparr>m_role = ''user'',
                  m_content = augmented_query query
                                ''No matching products found in the store inventory.''\<rparr>"
  let ?res = "\<lparr>c_response = generate_fallback_response r (?ms @ [?user]),
                 c_products = [], c_directions = None, c_query = query\<rparr>"
  have c: "chat client sp sc fmt r cfg aisles [] query history = Inr ?res"
    using chat_empty_catalog[of client sp sc fmt r cfg aisles query history] by simp
  have n: "c_response ?res \<noteq> []"
    by (simp add: fallback_nonempty)
  have a: "c_response ?res = random_choice r no_match \<and> c_response ?res \<in> set no_match"
    if "\<not> str_in ''matching products from the store inventory'' query"
  proof -
    have "c_response ?res = random_choice r no_match"
      using fallback_apology[OF that, of r ?ms] by simp
    moreover have "random_choice r no_match \<in> set no_match"
      by (rule random_choice_mem) (simp add: no_match_def)
    ultimately show ?thesis by simp
  qed
  have "c_products ?res = [] \<and> c_directions ?res = None \<and> c_query ?res = query" by simp
  with s c n a show ?thesis by blast
qed

theorem empty_catalog_reply_witness:
  "\<not> str_in ''matching products from the store inventory'' ''milk''
   \<and> search_products None plain_speller (flat_scorers 0) [] ''milk'' 3 50 = []
   \<and> (\<exists>res. chat None plain_speller (flat_scorers 0) name_only 1 default_cfg [] [] ''milk'' [] = Inr res
          \<and> c_products res = [] \<and> c_response res \<noteq> []
          \<and> c_response res = ''No exact match. Try broader terms like the product category or brand name.'')"
proof -
  have h: "\<not> str_in ''matching products from the store inventory'' ''milk''"
    by (simp add: str_in_def sublist_code prefix_code)
  have r: "random_choice 1 no_match
           = ''No exact match. Try broader terms like the product category or brand name.''"
    by (simp add: random_choice_def no_match_def)
  from empty_catalog_reply[of None plain_speller "flat_scorers 0" "''milk''" 3 50 name_only 1
      default_cfg "[]" "[]"] h r
  show ?thesis by auto
qed

lemma marker_query_lines:
  "split_on (CHR 0x0A) (augmented_query marker_query ''No matching products found in the store inventory.'')
   = [''Customer'' @ [CHR 0x27] @ ''s question: '' @ [CHR 0x22] @ ''matching products from the store inventory'',
      ''- **'' @ [CHR 0x22],
      [],
      ''Store inventory search results:'',
      ''No matching products found in the store inventory.'',
      [],
      ''Please respond to the customer'' @ [CHR 0x27]
        @ ''s question using the information above. Be conversational and helpful.'']"
  by (simp add: augmented_query_def marker_query_def)

lemma marker_query_reply:
  "generate_fallback_response r
     (ms @ [\<lparr>m_role = ''user'',
              m_content = augmented_query marker_query
                            ''No matching products found in the store inventory.''\<rparr>])
   = ''Here'' @ [CHR 0x27] @ ''s what I found.''"
proof -
  define L where "L =
     [''Customer'' @ [CHR 0x27] @ ''s question: '' @ [CHR 0x22] @ ''matching products from the store inventory'',
      ''- **'' @ [CHR 0x22],
      [],
      ''Store inventory search results:'',
      ''No matching products found in the store inventory.'',
      [],
      ''Please respond to the customer'' @ [CHR 0x27]
        @ ''s question using the information above. Be conversational and helpful.'']"
  have l: "split_on (CHR 0x0A)
             (augmented_query marker_query ''No matching products found in the store inventory.'') = L"
    unfolding L_def by (rule marker_query_lines)
  have m: "str_in ''matching products from the store inventory''
             (augmented_query marker_query ''No matching products found in the store inventory.'')"
    unfolding aug_marker by (simp add: marker_query_def str_in_def sublist_code prefix_code)
  have pl: "product_lines_of L \<noteq> []"
    by (simp add: L_def product_lines_of_def strip_def is_space_def startswith_def prefix_code)
  have fr: "found_response L = ''Here'' @ [CHR 0x27] @ ''s what I found.''"
    by (simp add: L_def found_response_def Let_def str_in_def sublist_code prefix_code
        startswith_def strip_def is_space_def)
  show ?thesis
    by (simp add: generate_fallback_response_def Let_def l m pl fr)
qed

text \<open>
  The store is empty, yet the reply is not an apology: the query holds the marker text
  and a line that starts like a product line, so the reply generator takes the query for
  a list of found products and answers that it found something.
\<close>

theorem empty_catalog_marker_counterexample:
  "chat None plain_speller (flat_scorers 0) name_only 0 default_cfg [] [] marker_query []
     = Inr \<lparr>c_response = ''Here'' @ [CHR 0x27] @ ''s what I found.'', c_products = [],
             c_directions = None, c_query = marker_query\<rparr>
   \<and> ''Here'' @ [CHR 0x27] @ ''s what I found.'' \<notin> set no_match \<union> set generic"
proof -
  have a: "chat None plain_speller (flat_scorers 0) name_only 0 default_cfg [] [] marker_query []
     = Inr \<lparr>c_response = ''Here'' @ [CHR 0x27] @ ''s what I found.'', c_products = [],
             c_directions = None, c_query = marker_query\<rparr>"
    using marker_query_reply[of 0 "[\<lparr>m_role = ''system'',
               m_content = SYSTEM_PROMPT (case default_cfg ''store_name'' of
                                            None \<Rightarrow> ''My Supermarket''
                                          | Some v \<Rightarrow> if v \<noteq> [] then v else ''My Supermarket'')\<rparr>]"]
    by (simp add: chat_empty_catalog)
  have b: "''Here'' @ [CHR 0x27] @ ''s what I found.'' \<notin> set no_match \<union> set generic"
    by (simp add: no_match_def generic_def)
  from a b show ?thesis by simp
qed

section \<open>Correctness of the breadth-first search\<close>

lemma adjacent_iff_dir:
  "adjacent xy n \<longleftrightarrow> (\<exists>d \<in> set directions4. n = (fst xy + fst d, snd xy + snd d))"
proof (cases xy, cases n)
  fix x y nx ny
  assume xy: "xy = (x, y)" and n: "n = (nx, ny)"
  have "adjacent (x, y) (nx, ny)
        \<longleftrightarrow> (nx = x \<and> ny = y + 1) \<or> (nx = x \<and> ny = y - 1)
            \<or> (nx = x + 1 \<and> ny = y) \<or> (nx = x - 1 \<and> ny = y)"
    unfolding adjacent_def by (simp only: fst_conv snd_conv) linarith
  then show ?thesis
    by (simp add: xy n directions4_def)
qed

lemma adjacent_manhattan:
  "adjacent a b \<Longrightarrow> manhattan s b = manhattan s a + 1 \<or> manhattan s b = manhattan s a - 1"
  unfolding adjacent_def manhattan_def by linarith

lemma manhattan_nonneg: "0 \<le> manhattan a b"
  by (simp add: manhattan_def)

lemma manhattan_zero: "manhattan a b = 0 \<longleftrightarrow> a = b"
  unfolding manhattan_def by (cases a, cases b) (simp, linarith)

lemma step_toward:
  assumes "in_bounds rows cols s" and "in_bounds rows cols c" and "c \<noteq> s"
  shows "\<exists>c'. adjacent c' c \<and> in_bounds rows cols c' \<and> manhattan s c' = manhattan s c - 1"
proof -
  obtain sx sy where s: "s = (sx, sy)" by (cases s)
  obtain x y where c: "c = (x, y)" by (cases c)
  from assms(3) consider "x < sx" | "sx < x" | "x = sx" "y < sy" | "x = sx" "sy < y"
    unfolding s c by (simp) linarith
  then show ?thesis
  proof cases
    case 1
    have "adjacent (x + 1, y) c \<and> in_bounds rows cols (x + 1, y)
          \<and> manhattan s (x + 1, y) = manhattan s c - 1"
      using 1 assms(1,2) unfolding s c by (auto simp: adjacent_def in_bounds_def manhattan_def)
    then show ?thesis by blast
  next
    case 2
    have "adjacent (x - 1, y) c \<and> in_bounds rows cols (x - 1, y)
          \<and> manhattan s (x - 1, y) = manhattan s c - 1"
      using 2 assms(1,2) unfolding s c by (auto simp: adjacent_def in_bounds_def manhattan_def)
    then show ?thesis by blast
  next
    case 3
    have "adjacent (x, y + 1) c \<and> in_bounds rows cols (x, y + 1)
          \<and> manhattan s (x, y + 1) = manhattan s c - 1"
      using 3 assms(1,2) unfolding s c by (auto simp: adjacent_def in_bounds_def manhattan_def)
    then show ?thesis by blast
  next
    case 4
    have "adjacent (x, y - 1) c \<and> in_bounds rows cols (x, y - 1)
          \<and> manhattan s (x, y - 1) = manhattan s c - 1"
      using 4 assms(1,2) unfolding s c by (auto simp: adjacent_def in_bounds_def manhattan_def)
    then show ?thesis by blast
  qed
qed

text \<open>A set of cells that holds \<open>start\<close> and is closed under neighbours holds the grid.\<close>

lemma closed_all:
  assumes s: "in_bounds rows cols s" and sv: "s \<in> V"
    and closed: "\<And>c n. c \<in> V \<Longrightarrow> adjacent c n \<Longrightarrow> in_bounds rows cols n \<Longrightarrow> n \<in> V"
  shows "in_bounds rows cols c \<Longrightarrow> c \<in> V"
proof (induction k \<equiv> "nat (manhattan s c)" arbitrary: c)
  case 0
  then have "manhattan s c = 0"
    using manhattan_nonneg[of s c] by simp
  then show ?case using sv by (simp add: manhattan_zero)
next
  case (Suc k)
  then have pos: "manhattan s c = int k + 1" by linarith
  then have "c \<noteq> s" using manhattan_zero[of s c] by auto
  from step_toward[OF s Suc.prems this]
  obtain c' where c': "adjacent c' c" "in_bounds rows cols c'" "manhattan s c' = manhattan s c - 1"
    by blast
  have "k = nat (manhattan s c')" using c'(3) pos by simp
  from Suc.hyps(1)[OF this c'(2)] have "c' \<in> V" .
  from closed[OF this c'(1) Suc.prems] show ?case .
qed

text \<open>What one run of the loop over the four directions does.\<close>

lemma bfs_expand_Inr:
  "bfs_expand rows cols e xy path ds visited queue = Inr (v', q')
   \<Longrightarrow> \<exists>ns. q' = queue @ map (\<lambda>n. (n, path @ [n])) ns \<and> v' = visited \<union> set ns
          \<and> (\<forall>n \<in> set ns. n \<notin> visited \<and> n \<noteq> e \<and> in_bounds rows cols n
                \<and> (\<exists>d \<in> set ds. n = (fst xy + fst d, snd xy + snd d)))
          \<and> (\<forall>d \<in> set ds. in_bounds rows cols (fst xy + fst d, snd xy + snd d)
                \<longrightarrow> (fst xy + fst d, snd xy + snd d) \<in> v')"
proof (induction ds arbitrary: visited queue)
  case Nil
  then show ?case by simp
next
  case (Cons d ds)
  let ?n = "(fst xy + fst d, snd xy + snd d)"
  show ?case
  proof (cases "in_bounds rows cols ?n \<and> ?n \<notin> visited")
    case True
    then have ne: "?n \<noteq> e"
      using Cons.prems by (auto simp: Let_def in_bounds_def split: if_splits)
    with True Cons.prems
    have "bfs_expand rows cols e xy path ds (insert ?n visited) (queue @ [(?n, path @ [?n])]) = Inr (v', q')"
      by (simp add: Let_def in_bounds_def)
    from Cons.IH[OF this] obtain ns where
      q: "q' = (queue @ [(?n, path @ [?n])]) @ map (\<lambda>n. (n, path @ [n])) ns"
      and v: "v' = insert ?n visited \<union> set ns"
      and new: "\<forall>n \<in> set ns. n \<notin> insert ?n visited \<and> n \<noteq> e \<and> in_bounds rows cols n
                \<and> (\<exists>d \<in> set ds. n = (fst xy + fst d, snd xy + snd d))"
      and all: "\<forall>d \<in> set ds. in_bounds rows cols (fst xy + fst d, snd xy + snd d)
                \<longrightarrow> (fst xy + fst d, snd xy + snd d) \<in> v'"
      by blast
    have "q' = queue @ map (\<lambda>n. (n, path @ [n])) (?n # ns)" using q by simp
    moreover have "v' = visited \<union> set (?n # ns)" using v by simp
    moreover have "\<forall>n \<in> set (?n # ns). n \<notin> visited \<and> n \<noteq> e \<and> in_bounds rows cols n
                \<and> (\<exists>d' \<in> set (d # ds). n = (fst xy + fst d', snd xy + snd d'))"
      using new True ne by auto
    moreover have "\<forall>d' \<in> set (d # ds). in_bounds rows cols (fst xy + fst d', snd xy + snd d')
                \<longrightarrow> (fst xy + fst d', snd xy + snd d') \<in> v'"
      using all v by auto
    ultimately show ?thesis by blast
  next
    case False
    with Cons.prems
    have "bfs_expand rows cols e xy path ds visited queue = Inr (v', q')"
      by (auto simp: Let_def in_bounds_def)
    from Cons.IH[OF this] obtain ns where
      q: "q' = queue @ map (\<lambda>n. (n, path @ [n])) ns"
      and v: "v' = visited \<union> set ns"
      and new: "\<forall>n \<in> set ns. n \<notin> visited \<and> n \<noteq> e \<and> in_bounds rows cols n
                \<and> (\<exists>d \<in> set ds. n = (fst xy + fst d, snd xy + snd d))"
      and all: "\<forall>d \<in> set ds. in_bounds rows cols (fst xy + fst d, snd xy + snd d)
                \<longrightarrow> (fst xy + fst d, snd xy + snd d) \<in> v'"
      by blast
    have "\<forall>n \<in> set ns. n \<notin> visited \<and> n \<noteq> e \<and> in_bounds rows cols n
                \<and> (\<exists>d' \<in> set (d # ds). n = (fst xy + fst d', snd xy + snd d'))"
      using new by auto
    moreover have "\<forall>d' \<in> set (d # ds). in_bounds rows cols (fst xy + fst d', snd xy + snd d')
                \<longrightarrow> (fst xy + fst d', snd xy + snd d') \<in> v'"
      using all v False by auto
    ultimately show ?thesis using q v by blast
  qed
qed

lemma bfs_expand_Inl:
  "bfs_expand rows cols e xy path ds visited queue = Inl found
   \<Longrightarrow> found = path @ [e] \<and> e \<notin> visited \<and> in_bounds rows cols e
       \<and> (\<exists>d \<in> set ds. e = (fst xy + fst d, snd xy + snd d))"
proof (induction ds arbitrary: visited queue)
  case Nil
  then show ?case by simp
next
  case (Cons d ds)
  let ?n = "(fst xy + fst d, snd xy + snd d)"
  show ?case
  proof (cases "in_bounds rows cols ?n \<and> ?n \<notin> visited")
    case True
    show ?thesis
    proof (cases "?n = e")
      case e: True
      with True Cons.prems have "found = path @ [e]"
        by (auto simp: Let_def in_bounds_def)
      with True e show ?thesis by auto
    next
      case False
      with True Cons.prems
      have "bfs_expand rows cols e xy path ds (insert ?n visited) (queue @ [(?n, path @ [?n])]) = Inl found"
        by (simp add: Let_def in_bounds_def)
      from Cons.IH[OF this] show ?thesis by auto
    qed
  next
    case False
    with Cons.prems
    have "bfs_expand rows cols e xy path ds visited queue = Inl found"
      by (auto simp: Let_def in_bounds_def)
    from Cons.IH[OF this] show ?thesis by auto
  qed
qed

lemma new_neighbour_level:
  assumes "\<And>c. in_bounds rows cols c \<Longrightarrow> manhattan s c \<le> manhattan s xy \<Longrightarrow> c \<in> visited"
    and "adjacent xy n" and "in_bounds rows cols n" and "n \<notin> visited"
  shows "manhattan s n = manhattan s xy + 1"
proof -
  have "\<not> manhattan s n \<le> manhattan s xy"
    using assms(1)[OF assms(3)] assms(4) by blast
  with adjacent_manhattan[OF assms(2), of s] show ?thesis by linarith
qed

lemma grid_path_extend:
  assumes "grid_path rows cols s xy path" and "adjacent xy n" and "in_bounds rows cols n"
  shows "grid_path rows cols s n (path @ [n])"
  using assms by (auto simp: grid_path_def successively_append_iff)

lemma sorted_const: "(\<forall>x \<in> set xs. f x = (c::int)) \<Longrightarrow> sorted (map f xs)"
  by (induction xs) auto

lemma sorted_hd_min: "sorted (map f xs) \<Longrightarrow> x \<in> set xs \<Longrightarrow> f (hd xs) \<le> (f x :: int)"
  by (cases xs) auto

text \<open>With an empty queue the state of the loop is contradictory: the loop does not end there.\<close>

lemma bfs_inv_empty:
  assumes "in_bounds rows cols start" and "in_bounds rows cols e"
    and "bfs_inv rows cols start e visited []"
  shows False
proof -
  from assms(3) have sv: "start \<in> visited" and ev: "e \<notin> visited"
    and closed: "\<And>c n. c \<in> visited \<Longrightarrow> adjacent c n \<Longrightarrow> in_bounds rows cols n \<Longrightarrow> n \<in> visited"
    by (auto simp: bfs_inv_def)
  have "e \<in> visited"
  proof (rule closed_all[where s = start and rows = rows and cols = cols])
    show "in_bounds rows cols start" by (rule assms(1))
    show "start \<in> visited" by (rule sv)
    show "in_bounds rows cols e" by (rule assms(2))
    show "\<And>c n. c \<in> visited \<Longrightarrow> adjacent c n \<Longrightarrow> in_bounds rows cols n \<Longrightarrow> n \<in> visited"
      by (rule closed)
  qed
  with ev show False by simp
qed

lemma bfs_inv_found:
  assumes inv: "bfs_inv rows cols start e visited ((xy, path) # queue)"
    and ex: "bfs_expand rows cols e xy path directions4 visited queue = Inl found"
  shows "grid_path rows cols start e found \<and> int (length found) = manhattan start e + 1"
proof -
  from inv have hp: "grid_path rows cols start xy path"
    and len: "int (length path) = manhattan start xy + 1"
    and A: "\<And>c. in_bounds rows cols c \<Longrightarrow> manhattan start c \<le> manhattan start xy \<Longrightarrow> c \<in> visited"
    by (auto simp: bfs_inv_def)
  from bfs_expand_Inl[OF ex] have f: "found = path @ [e]" and ev: "e \<notin> visited"
    and eb: "in_bounds rows cols e" and adj: "adjacent xy e"
    by (auto simp: adjacent_iff_dir)
  have "manhattan start e = manhattan start xy + 1"
    using A adj eb ev by (rule new_neighbour_level)
  moreover have "grid_path rows cols start e (path @ [e])"
    using hp adj eb by (rule grid_path_extend)
  ultimately show ?thesis using len f by simp
qed

lemma bfs_inv_step:
  assumes s: "in_bounds rows cols start"
    and inv: "bfs_inv rows cols start e visited ((xy, path) # queue)"
    and ex: "bfs_expand rows cols e xy path directions4 visited queue = Inr (v', q')"
  shows "bfs_inv rows cols start e v' q'"
proof -
  let ?lev = "\<lambda>cp :: cell \<times> cell list. manhattan start (fst cp)"
  let ?k = "manhattan start xy"
  from inv have sv: "start \<in> visited" and ev: "e \<notin> visited"
    and hp: "grid_path rows cols start xy path"
    and len: "int (length path) = ?k + 1"
    and qp: "\<And>cp. cp \<in> set queue \<Longrightarrow> grid_path rows cols start (fst cp) (snd cp)
                                  \<and> int (length (snd cp)) = manhattan start (fst cp) + 1"
    and srt: "sorted (map ?lev queue)"
    and lo: "\<And>cp. cp \<in> set queue \<Longrightarrow> ?k \<le> ?lev cp"
    and hi: "\<And>cp. cp \<in> set queue \<Longrightarrow> ?lev cp \<le> ?k + 1"
    and closed: "\<And>c n. c \<in> visited \<Longrightarrow> c \<noteq> xy \<Longrightarrow> c \<notin> fst ` set queue \<Longrightarrow> adjacent c n
                       \<Longrightarrow> in_bounds rows cols n \<Longrightarrow> n \<in> visited"
    and A: "\<And>c. in_bounds rows cols c \<Longrightarrow> manhattan start c \<le> ?k \<Longrightarrow> c \<in> visited"
    by (auto simp: bfs_inv_def)
  from bfs_expand_Inr[OF ex] obtain ns where
    q': "q' = queue @ map (\<lambda>n. (n, path @ [n])) ns"
    and v': "v' = visited \<union> set ns"
    and new: "\<And>n. n \<in> set ns \<Longrightarrow> n \<notin> visited \<and> n \<noteq> e \<and> in_bounds rows cols n \<and> adjacent xy n"
    and all: "\<And>n. adjacent xy n \<Longrightarrow> in_bounds rows cols n \<Longrightarrow> n \<in> v'"
    by (auto simp: adjacent_iff_dir)
  have lvl: "manhattan start n = ?k + 1" if "n \<in> set ns" for n
    using A new[OF that] by (intro new_neighbour_level[where visited = visited and rows = rows and cols = cols]) auto
  have k0: "0 \<le> ?k" by (rule manhattan_nonneg)
  have i1: "start \<in> v'" using sv v' by simp
  have "e \<notin> set ns" using new by blast
  then have i2: "e \<notin> v'" using ev v' by simp
  have i3: "grid_path rows cols start (fst cp) (snd cp)
            \<and> int (length (snd cp)) = manhattan start (fst cp) + 1" if "cp \<in> set q'" for cp
  proof (cases "cp \<in> set queue")
    case True
    then show ?thesis by (rule qp)
  next
    case False
    with that q' obtain n where n: "n \<in> set ns" and cp: "cp = (n, path @ [n])" by auto
    have "grid_path rows cols start n (path @ [n])"
      using hp new[OF n] by (intro grid_path_extend) auto
    then show ?thesis using lvl[OF n] len cp by simp
  qed
  have levs: "?k \<le> ?lev cp \<and> ?lev cp \<le> ?k + 1" if "cp \<in> set q'" for cp
  proof (cases "cp \<in> set queue")
    case True
    then show ?thesis using lo hi by blast
  next
    case False
    with that q' obtain n where n: "n \<in> set ns" and cp: "cp = (n, path @ [n])" by auto
    then show ?thesis using lvl[OF n] by simp
  qed
  have i4: "sorted (map ?lev q')"
  proof -
    have "sorted (map ?lev (map (\<lambda>n. (n, path @ [n])) ns))"
      by (rule sorted_const[where c = "?k + 1"]) (auto simp: lvl)
    moreover have "\<forall>x \<in> set (map ?lev queue). \<forall>y \<in> set (map ?lev (map (\<lambda>n. (n, path @ [n])) ns)). x \<le> y"
      using hi lvl by auto
    ultimately show ?thesis
      using srt unfolding q' map_append by (simp only: sorted_append)
  qed
  have hdq: "hd q' \<in> set q'" if "q' \<noteq> []" using that by simp
  have i5: "?lev cp \<le> ?lev (hd q') + 1" if "cp \<in> set q'" for cp
  proof -
    from that have "q' \<noteq> []" by auto
    from levs[OF hdq[OF this]] levs[OF that] show ?thesis by linarith
  qed
  have i6: "n \<in> v'" if c: "c \<in> v'" "c \<notin> fst ` set q'" and n: "adjacent c n" "in_bounds rows cols n" for c n
  proof -
    have "c \<notin> set ns" using c(2) q' by force
    with c(1) v' have cv: "c \<in> visited" by simp
    have cq: "c \<notin> fst ` set queue" using c(2) q' by auto
    show ?thesis
    proof (cases "c = xy")
      case True
      then show ?thesis using all n by simp
    next
      case False
      from closed[OF cv False cq n] show ?thesis using v' by simp
    qed
  qed
  have i7: "c \<in> v'" if ne: "q' \<noteq> []" and cb: "in_bounds rows cols c"
    and cl: "manhattan start c \<le> ?lev (hd q')" for c
  proof (cases "manhattan start c \<le> ?k")
    case True
    from A[OF cb True] show ?thesis using v' by simp
  next
    case False
    from levs[OF hdq[OF ne]] cl False have ck: "manhattan start c = ?k + 1"
      and hk: "?lev (hd q') = ?k + 1" by linarith+
    have "c \<noteq> start" using ck k0 manhattan_zero[of start start] by auto
    from step_toward[OF s cb this]
    obtain c' where c': "adjacent c' c" "in_bounds rows cols c'" "manhattan start c' = manhattan start c - 1"
      by blast
    have c'k: "manhattan start c' = ?k" using c'(3) ck by simp
    from A[OF c'(2)] c'k have "c' \<in> visited" by simp
    then have c'v: "c' \<in> v'" using v' by simp
    have "c' \<notin> fst ` set q'"
    proof
      assume "c' \<in> fst ` set q'"
      then obtain cp where cp: "cp \<in> set q'" "fst cp = c'" by auto
      from sorted_hd_min[OF i4 cp(1)] have "?lev (hd q') \<le> ?lev cp" .
      with hk cp(2) c'k show False by simp
    qed
    from i6[OF c'v this c'(1) cb] show ?thesis .
  qed
  show ?thesis
    unfolding bfs_inv_def using i1 i2 i3 i4 i5 i6 i7 by blast
qed

lemma bfs_loop_correct:
  assumes "in_bounds rows cols start" and "in_bounds rows cols e"
    and "bfs_inv rows cols start e visited queue"
  shows "\<exists>path. bfs_loop rows cols e visited queue = Some path
                \<and> grid_path rows cols start e path
                \<and> int (length path) = manhattan start e + 1"
  using assms
proof (induction rows cols e visited queue rule: bfs_loop.induct)
  case (1 rows cols e visited)
  from bfs_inv_empty[OF 1(1) 1(2) 1(3)] show ?case ..
next
  case (2 rows cols e visited xy path queue)
  show ?case
  proof (cases "bfs_expand rows cols e xy path directions4 visited queue")
    case (Inl found)
    from bfs_inv_found[OF "2.prems"(3) Inl] show ?thesis
      using Inl by simp
  next
    case (Inr vq)
    obtain v' q' where vq: "vq = (v', q')" by (cases vq)
    from bfs_inv_step[OF "2.prems"(1) "2.prems"(3) Inr[unfolded vq]]
    have inv': "bfs_inv rows cols start e v' q'" .
    from "2.IH"[OF Inr vq[symmetric] "2.prems"(1) "2.prems"(2) inv']
    show ?thesis using Inr vq by simp
  qed
qed

lemma bfs_inv_initial:
  assumes "in_bounds rows cols start" and "start \<noteq> e"
  shows "bfs_inv rows cols start e {start} [(start, [start])]"
proof -
  have "manhattan start start = 0" by (simp add: manhattan_zero)
  moreover have "c = start" if "manhattan start c \<le> 0" for c
    using that manhattan_nonneg[of start c] manhattan_zero[of start c] by auto
  ultimately show ?thesis
    using assms by (auto simp: bfs_inv_def grid_path_def)
qed

text \<open>
  Claim C1. For two cells inside the grid (so the grid has at least one row and one
  column), \<open>bfs_path\<close> returns a path: a list of cells of the grid that starts at
  \<open>start\<close>, ends at \<open>end\<close>, in which each cell differs from the one before by one unit
  in exactly one coordinate, and whose length is the Manhattan distance of \<open>start\<close> and
  \<open>end\<close> plus one.
\<close>

theorem bfs_path_shortest:
  assumes "in_bounds rows cols start" and "in_bounds rows cols e"
  shows "\<exists>path. bfs_path grid start e rows cols = Some path
                \<and> path \<noteq> [] \<and> hd path = start \<and> last path = e
                \<and> successively adjacent path
                \<and> list_all (in_bounds rows cols) path
                \<and> int (length path) = manhattan start e + 1"
proof (cases "start = e")
  case True
  then show ?thesis
    using assms by (simp add: bfs_path_def manhattan_zero)
next
  case False
  from bfs_loop_correct[OF assms bfs_inv_initial[OF assms(1) False]]
  show ?thesis using False by (auto simp: bfs_path_def grid_path_def)
qed

theorem bfs_path_shortest_witness:
  "in_bounds 6 5 (0, 0) \<and> in_bounds 6 5 (0, 2)
   \<and> bfs_path [] (0, 0) (0, 2) 6 5 = Some [(0, 0), (0, 1), (0, 2)]
   \<and> successively adjacent [(0, 0), (0, 1), (0, 2)]
   \<and> int (length [(0, 0), (0, 1), (0 :: int, 2 :: int)]) = manhattan (0, 0) (0, 2) + 1"
proof -
  have h1: "in_bounds 6 5 (0, 0)" by (simp add: in_bounds_def)
  have h2: "in_bounds 6 5 (0, 2)" by (simp add: in_bounds_def)
  have ev: "bfs_path [] (0, 0) (0, 2) 6 5 = Some [(0, 0), (0, 1), (0, 2)]"
    by (simp add: bfs_path_def directions4_def Let_def)
  from bfs_path_shortest[OF h1 h2, of "[]"] ev h1 h2
  show ?thesis by auto
qed

end
